theory Spec2Isabelle
  imports Main "HOL-Library.Multiset" "HOL-Library.Sublist" "HOL-Library.Product_Lexorder"
begin

section \<open>Data model (types/index.ts)\<close>

text \<open>
  JavaScript numbers that hold offsets, counters and identifiers are modelled as
  \<open>int\<close>; strings are \<open>string\<close>, one \<open>char\<close> per code unit. An optional
  property (\<open>uri?: string\<close>) is an \<open>option\<close>, with \<open>None\<close> for undefined or null.
\<close>

record SourceInfo =
  label :: string
  shortUrl :: string
  "value" :: string

record CitationInfo =
  startIndex :: int
  endIndex :: int
  segments :: "SourceInfo list"

section \<open>String and array primitives of the language\<close>

text \<open>
  \<open>s.slice(0, e)\<close> and \<open>s.slice(e)\<close>: a negative index counts from the end of the
  string, and every index is clamped to the range from 0 to the length.
\<close>

definition relIndex :: "int \<Rightarrow> nat \<Rightarrow> nat" where
  "relIndex i n = (if i < 0 then nat (max (int n + i) 0) else min (nat i) n)"

definition sliceTo :: "'a list \<Rightarrow> int \<Rightarrow> 'a list" where
  "sliceTo s e = take (relIndex e (length s)) s"

definition sliceFrom :: "'a list \<Rightarrow> int \<Rightarrow> 'a list" where
  "sliceFrom s e = drop (relIndex e (length s)) s"

text \<open>
  \<open>Array.prototype.sort\<close> with a comparator is a stable sort: an element goes before
  the elements that the comparator does not put in front of it, and elements that
  compare equal keep their input order. Stable insertion sort computes that result.
\<close>

fun insertBy :: "('a \<Rightarrow> 'a \<Rightarrow> int) \<Rightarrow> 'a \<Rightarrow> 'a list \<Rightarrow> 'a list" where
  "insertBy cmp x [] = [x]"
| "insertBy cmp x (y # ys) =
     (if cmp x y \<le> 0 then x # y # ys else y # insertBy cmp x ys)"

definition sortBy :: "('a \<Rightarrow> 'a \<Rightarrow> int) \<Rightarrow> 'a list \<Rightarrow> 'a list" where
  "sortBy cmp xs = foldr (insertBy cmp) xs []"

section \<open>insertCitationMarkers (agent/utils.ts)\<close>

text \<open>The comparator handed to \<open>sort\<close>: descending end index, then descending start index.\<close>

definition compareCitations :: "CitationInfo \<Rightarrow> CitationInfo \<Rightarrow> int" where
  "compareCitations a b =
     (if endIndex b \<noteq> endIndex a then endIndex b - endIndex a
      else startIndex b - startIndex a)"

text \<open>
  The order the comparator induces, as a key under the lexicographic order of pairs:
  a citation goes first when its key is smaller.
\<close>

definition citationKey :: "CitationInfo \<Rightarrow> int \<times> int" where
  "citationKey c = (- endIndex c, - startIndex c)"

text \<open>The inner loop: one \<open>' [label](shortUrl)'\<close> per source, appended in order.\<close>

fun markerToInsert :: "SourceInfo list \<Rightarrow> string" where
  "markerToInsert [] = []"
| "markerToInsert (s # ss) =
     ('' ['' @ label s @ '']('' @ shortUrl s @ '')'') @ markerToInsert ss"

definition spliceMarker :: "string \<Rightarrow> CitationInfo \<Rightarrow> string" where
  "spliceMarker modifiedText c =
     sliceTo modifiedText (endIndex c) @ markerToInsert (segments c)
       @ sliceFrom modifiedText (endIndex c)"

definition insertCitationMarkers :: "string \<Rightarrow> CitationInfo list \<Rightarrow> string" where
  "insertCitationMarkers text citationsList =
     foldl spliceMarker text (sortBy compareCitations citationsList)"

section \<open>Specification of insertCitationMarkers\<close>

text \<open>
  What the splicing is meant to achieve, written as one pass over the original text:
  the citations come in ascending order of end offset, \<open>pos\<close> is the offset
  reached so far, and every marker group is put at the end offset its citation has in
  the original text.
\<close>

fun insertAtOffsets :: "string \<Rightarrow> nat \<Rightarrow> CitationInfo list \<Rightarrow> string" where
  "insertAtOffsets txt pos [] = drop pos txt"
| "insertAtOffsets txt pos (c # cs) =
     take (nat (endIndex c) - pos) (drop pos txt) @ markerToInsert (segments c)
       @ insertAtOffsets txt (nat (endIndex c)) cs"

section \<open>resolveUrls (agent/utils.ts)\<close>

record Web =
  uri :: "string option"
  title :: "string option"

record GroundingChunk =
  web :: "Web option"

text \<open>
  Template literals print an integer in decimal. Batch ids and indices of this program
  are array positions and lengths, far below the size at which the language switches
  to exponent notation.
\<close>

definition digitChar :: "nat \<Rightarrow> char" where
  "digitChar d = ''0123456789'' ! d"

fun showNat :: "nat \<Rightarrow> string" where
  "showNat n = (if n < 10 then [digitChar n] else showNat (n div 10) @ [digitChar (n mod 10)])"

declare showNat.simps [simp del]

definition showInt :: "int \<Rightarrow> string" where
  "showInt i = (if i < 0 then CHR ''-'' # showNat (nat (- i)) else showNat (nat i))"

definition urlPrefix :: string where
  "urlPrefix = ''https://vertexaisearch.cloud.google.com/id/''"

text \<open>\<open>site.web?.uri || ''\<close>\<close>

definition chunkUri :: "GroundingChunk \<Rightarrow> string" where
  "chunkUri site =
     (case web site of None \<Rightarrow> []
      | Some w \<Rightarrow> (case uri w of None \<Rightarrow> [] | Some u \<Rightarrow> u))"

text \<open>
  \<open>resolvedMap\<close> starts as the object literal \<open>{}\<close>: its own entries are a finite
  map from URL to short URL, and behind them a lookup \<open>resolvedMap[url]\<close> also finds
  the properties that every object inherits from \<open>Object.prototype\<close>, all of them
  truthy values.
\<close>

definition objectPrototypeKeys :: "string list" where
  "objectPrototypeKeys =
     [''constructor'', ''__defineGetter__'', ''__defineSetter__'', ''hasOwnProperty'',
      ''__lookupGetter__'', ''__lookupSetter__'', ''isPrototypeOf'',
      ''propertyIsEnumerable'', ''toString'', ''valueOf'', ''__proto__'',
      ''toLocaleString'']"

text \<open>
  \<open>!resolvedMap[url]\<close>: an own entry is falsy when it is the empty string; without an
  own entry the lookup is falsy unless the key names an inherited property.
\<close>

definition falsyLookup :: "(string \<rightharpoonup> string) \<Rightarrow> string \<Rightarrow> bool" where
  "falsyLookup resolvedMap url =
     (case resolvedMap url of
        Some r \<Rightarrow> r = []
      | None \<Rightarrow> url \<notin> set objectPrototypeKeys)"

definition shortUrlFor :: "int \<Rightarrow> nat \<Rightarrow> string" where
  "shortUrlFor bid idx = urlPrefix @ showInt bid @ ''-'' @ showNat idx"

text \<open>The \<open>forEach\<close> callback, run from index 0 upwards.\<close>

fun resolveLoop :: "int \<Rightarrow> (string \<rightharpoonup> string) \<Rightarrow> nat \<Rightarrow> string list \<Rightarrow> (string \<rightharpoonup> string)" where
  "resolveLoop bid resolvedMap idx [] = resolvedMap"
| "resolveLoop bid resolvedMap idx (url # urls) =
     resolveLoop bid
       (if url \<noteq> [] \<and> falsyLookup resolvedMap url
        then resolvedMap(url \<mapsto> shortUrlFor bid idx) else resolvedMap)
       (Suc idx) urls"

definition resolveUrls :: "GroundingChunk list \<Rightarrow> int \<Rightarrow> (string \<rightharpoonup> string)" where
  "resolveUrls urlsToResolve bid = resolveLoop bid Map.empty 0 (map chunkUri urlsToResolve)"

section \<open>getCitations (agent/utils.ts)\<close>

record Segment =
  segStartIndex :: "int option"
  segEndIndex :: "int option"

record GroundingSupport =
  segment :: "Segment option"
  groundingChunkIndices :: "int list option"

record GroundingMetadata =
  groundingChuncks :: "GroundingChunk list option"
  groundingSupports :: "GroundingSupport list option"

record Candidate =
  groundingMetadata :: "GroundingMetadata option"

record GoogleAIResponse =
  candidates :: "Candidate list option"
  responseText :: string

text \<open>\<open>title.split('.')\<close>, \<open>.slice(0, -1)\<close> (all pieces but the last) and \<open>.join('.')\<close>.\<close>

fun splitOn :: "char \<Rightarrow> string \<Rightarrow> string list" where
  "splitOn c [] = [[]]"
| "splitOn c (x # xs) =
     (if x = c then [] # splitOn c xs
      else (case splitOn c xs of [] \<Rightarrow> [[x]] | w # ws \<Rightarrow> (x # w) # ws))"

fun joinWith :: "char \<Rightarrow> string list \<Rightarrow> string" where
  "joinWith c [] = []"
| "joinWith c [w] = w"
| "joinWith c (w # v # ws) = w @ c # joinWith c (v # ws)"

text \<open>
  \<open>title?.split('.').slice(0, -1).join('.') || title || 'Source'\<close>: the empty
  string is falsy, so an empty stripped title falls back to the title, and an empty or
  missing title to the word Source.
\<close>

definition sourceLabel :: "string option \<Rightarrow> string" where
  "sourceLabel t =
     (case t of None \<Rightarrow> ''Source''
      | Some ti \<Rightarrow>
          (let stripped = joinWith CHR ''.'' (butlast (splitOn CHR ''.'' ti))
           in if stripped \<noteq> [] then stripped else if ti \<noteq> [] then ti else ''Source''))"

text \<open>\<open>groundingChuncks?.[ind]\<close>: undefined when the array is absent or the index is outside it.\<close>

definition chunkAt :: "GroundingChunk list option \<Rightarrow> int \<Rightarrow> GroundingChunk option" where
  "chunkAt chunks ind =
     (case chunks of None \<Rightarrow> None
      | Some cs \<Rightarrow> if 0 \<le> ind \<and> nat ind < length cs then Some (cs ! nat ind) else None)"

text \<open>One turn of the loop over \<open>groundingChunkIndices\<close>; \<open>segs\<close> is \<open>citation.segments\<close>.\<close>

definition chunkStep ::
  "GroundingChunk list option \<Rightarrow> (string \<rightharpoonup> string) \<Rightarrow> SourceInfo list \<Rightarrow> int \<Rightarrow> SourceInfo list" where
  "chunkStep chunks resolvedUrlsMap segs ind =
     (case chunkAt chunks ind of None \<Rightarrow> segs
      | Some chunk \<Rightarrow>
     (case web chunk of None \<Rightarrow> segs
      | Some w \<Rightarrow>
     (case uri w of None \<Rightarrow> segs
      | Some u \<Rightarrow>
          if u = [] then segs
          else (case resolvedUrlsMap u of None \<Rightarrow> segs
                | Some resolvedUrl \<Rightarrow>
                    if resolvedUrl = [] then segs
                    else segs @ [\<lparr>label = sourceLabel (title w), shortUrl = resolvedUrl,
                                  value = u\<rparr>]))))"

text \<open>One turn of the loop over \<open>groundingSupports\<close>; \<open>citations\<close> is the result array.\<close>

definition supportStep ::
  "GroundingChunk list option \<Rightarrow> (string \<rightharpoonup> string) \<Rightarrow> CitationInfo list \<Rightarrow> GroundingSupport
     \<Rightarrow> CitationInfo list" where
  "supportStep chunks resolvedUrlsMap citations support =
     (case segment support of None \<Rightarrow> citations
      | Some sg \<Rightarrow>
     (case segEndIndex sg of None \<Rightarrow> citations
      | Some e \<Rightarrow>
          (let start = (case segStartIndex sg of None \<Rightarrow> 0 | Some s \<Rightarrow> s);
               segs = (case groundingChunkIndices support of None \<Rightarrow> []
                       | Some inds \<Rightarrow> foldl (chunkStep chunks resolvedUrlsMap) [] inds)
           in if segs \<noteq> []
              then citations @ [\<lparr>startIndex = start, endIndex = e, segments = segs\<rparr>]
              else citations)))"

definition getCitations :: "GoogleAIResponse \<Rightarrow> (string \<rightharpoonup> string) \<Rightarrow> CitationInfo list" where
  "getCitations response resolvedUrlsMap =
     (case candidates response of None \<Rightarrow> []
      | Some [] \<Rightarrow> []
      | Some (candidate # _) \<Rightarrow>
     (case groundingMetadata candidate of None \<Rightarrow> []
      | Some gm \<Rightarrow>
     (case groundingSupports gm of None \<Rightarrow> []
      | Some supports \<Rightarrow>
          foldl (supportStep (groundingChuncks gm) resolvedUrlsMap) [] supports)))"

section \<open>State and reducers (agent/state.ts, agent/graph.ts)\<close>

record Query =
  query :: string
  rationale :: string

datatype Message = HumanMessage string | AIMessage string

text \<open>
  The graph state, with the channels of \<open>GraphState\<close>. Every channel has a default, so
  a node always reads a defined value; \<open>maxResearchLoops\<close> keeps its option because
  \<open>evaluateResearch\<close> falls back to the configuration when it is null or undefined.
\<close>

record OverallState =
  messages :: "Message list"
  searchQuery :: "string list"
  webResearchResult :: "string list"
  sourcesGathered :: "SourceInfo list"
  initialSearchQueryCount :: int
  maxResearchLoops :: "int option"
  researchLoopCount :: int
  reasoningModel :: string
  queryList :: "Query list"
  isSufficient :: bool
  knowledgeGap :: string
  followUpQueries :: "string list"
  numberOfRanQueries :: int

text \<open>
  What a reducer receives for an accumulating channel: nothing, one element, or an
  array of elements.
\<close>

datatype 'a contribution = Undefined | Element 'a | Elements "'a list"

text \<open>
  \<open>arrayAccumulator\<close>. The test \<open>!update\<close> also holds for a single element that is
  itself falsy (the empty string, for a channel of strings); \<open>falsy\<close> says which
  elements are. An array is never falsy.
\<close>

definition arrayAccumulator :: "('a \<Rightarrow> bool) \<Rightarrow> 'a list \<Rightarrow> 'a contribution \<Rightarrow> 'a list" where
  "arrayAccumulator falsy current update =
     (case update of
        Undefined \<Rightarrow> current
      | Elements us \<Rightarrow> current @ us
      | Element u \<Rightarrow> if falsy u then current else current @ [u])"

text \<open>\<open>messages\<close>, the reducer of the transcript; a message object is never falsy.\<close>

definition messagesReducer :: "Message list \<Rightarrow> Message contribution \<Rightarrow> Message list" where
  "messagesReducer current update =
     (case update of
        Undefined \<Rightarrow> current
      | Elements us \<Rightarrow> current @ us
      | Element u \<Rightarrow> current @ [u])"

definition simpleValue :: "'a \<Rightarrow> 'a option \<Rightarrow> 'a" where
  "simpleValue current update = (case update of Some u \<Rightarrow> u | None \<Rightarrow> current)"

definition falsyString :: "string \<Rightarrow> bool" where
  "falsyString s = (s = [])"

definition neverFalsy :: "'a \<Rightarrow> bool" where
  "neverFalsy x = False"

text \<open>
  A partial update returned by a node: the channels that the nodes of this graph write.
\<close>

record StateUpdate =
  messagesUpd :: "Message contribution"
  searchQueryUpd :: "string contribution"
  webResearchResultUpd :: "string contribution"
  sourcesGatheredUpd :: "SourceInfo contribution"
  queryListUpd :: "Query list option"
  isSufficientUpd :: "bool option"
  knowledgeGapUpd :: "string option"
  followUpQueriesUpd :: "string contribution"
  researchLoopCountUpd :: "int option"
  numberOfRanQueriesUpd :: "int option"

definition noUpdate :: StateUpdate where
  "noUpdate = \<lparr>messagesUpd = Undefined, searchQueryUpd = Undefined,
     webResearchResultUpd = Undefined, sourcesGatheredUpd = Undefined,
     queryListUpd = None, isSufficientUpd = None, knowledgeGapUpd = None,
     followUpQueriesUpd = Undefined, researchLoopCountUpd = None,
     numberOfRanQueriesUpd = None\<rparr>"

text \<open>Merging an update channel by channel, each with the reducer \<open>GraphState\<close> gives it.\<close>

definition applyUpdate :: "OverallState \<Rightarrow> StateUpdate \<Rightarrow> OverallState" where
  "applyUpdate st u =
     st\<lparr>messages := messagesReducer (messages st) (messagesUpd u),
        searchQuery := arrayAccumulator falsyString (searchQuery st) (searchQueryUpd u),
        webResearchResult :=
          arrayAccumulator falsyString (webResearchResult st) (webResearchResultUpd u),
        sourcesGathered :=
          arrayAccumulator neverFalsy (sourcesGathered st) (sourcesGatheredUpd u),
        queryList := simpleValue (queryList st) (queryListUpd u),
        isSufficient := simpleValue (isSufficient st) (isSufficientUpd u),
        knowledgeGap := simpleValue (knowledgeGap st) (knowledgeGapUpd u),
        followUpQueries :=
          arrayAccumulator falsyString (followUpQueries st) (followUpQueriesUpd u),
        researchLoopCount := simpleValue (researchLoopCount st) (researchLoopCountUpd u),
        numberOfRanQueries := simpleValue (numberOfRanQueries st) (numberOfRanQueriesUpd u)\<rparr>"

section \<open>Nodes and routing functions (agent/nodes.ts)\<close>

text \<open>
  A thrown value: an \<open>Error\<close> with its message, or anything else. The loaded
  \<open>Configuration\<close> is a parameter of the nodes: reading it from the environment is
  outside this development.
\<close>

datatype error = Error string | Thrown

definition errorMessage :: "error \<Rightarrow> string" where
  "errorMessage e = (case e of Error m \<Rightarrow> m | Thrown \<Rightarrow> ''Unknown error'')"

record Configuration =
  configMaxResearchLoops :: int

record WebSearchState =
  argSearchQuery :: string
  argId :: int

record SendObject =
  node :: string
  args :: WebSearchState

text \<open>
  The result of a routing function, \<open>string | SendObject[]\<close>: the name of a node, or
  an array of plain objects with a node name and the arguments for it.
\<close>

datatype Route = NodeName string | SendObjects "SendObject list"

text \<open>\<open>array.map((x, idx) => ...)\<close> pairs every element with its position.\<close>

definition withIndex :: "'a list \<Rightarrow> (nat \<times> 'a) list" where
  "withIndex xs = zip [0 ..< length xs] xs"

definition continueToWebResearch :: "OverallState \<Rightarrow> SendObject list" where
  "continueToWebResearch state =
     map (\<lambda>(idx, q). \<lparr>node = ''webResearch'',
                       args = \<lparr>argSearchQuery = query q, argId = int idx\<rparr>\<rparr>)
       (withIndex (queryList state))"

text \<open>
  \<open>webResearch\<close>. The parameter \<open>outcome\<close> is what the \<open>try\<close> block obtains from the
  search service: the response, or the value thrown by the call (or by reading the
  text of the response). The \<open>catch\<close> clause turns a thrown value into an update.
\<close>

definition webResearch :: "WebSearchState \<Rightarrow> error + GoogleAIResponse \<Rightarrow> StateUpdate" where
  \<open>webResearch state outcome =
     (case outcome of
        Inr response \<Rightarrow>
          (let groundingChunks =
                 (case candidates response of None \<Rightarrow> [] | Some [] \<Rightarrow> []
                  | Some (c # _) \<Rightarrow>
                      (case groundingMetadata c of None \<Rightarrow> []
                       | Some gm \<Rightarrow>
                           (case groundingChuncks gm of None \<Rightarrow> [] | Some cs \<Rightarrow> cs)));
               resolvedUrls = resolveUrls groundingChunks (argId state);
               citations = getCitations response resolvedUrls;
               modifiedText = insertCitationMarkers (responseText response) citations
           in noUpdate\<lparr>sourcesGatheredUpd := Elements (concat (map segments citations)),
                        searchQueryUpd := Elements [argSearchQuery state],
                        webResearchResultUpd := Elements [modifiedText]\<rparr>)
      | Inl e \<Rightarrow>
          noUpdate\<lparr>sourcesGatheredUpd := Elements [],
                   searchQueryUpd := Elements [argSearchQuery state],
                   webResearchResultUpd :=
                     Elements [''Research for "'' @ argSearchQuery state
                               @ ''" - No results found due to error: '' @ errorMessage e]\<rparr>)\<close>

record ReflectionResponse =
  respIsSufficient :: bool
  respKnowledgeGap :: string
  respFollowUpQueries :: "string list option"

text \<open>
  \<open>reflection\<close>. \<open>apiKey\<close> is the environment variable, \<open>outcome\<close> the result of the
  structured model call; a missing key or a failed call makes the node throw.
\<close>

definition reflection ::
  "string option \<Rightarrow> error + ReflectionResponse \<Rightarrow> OverallState \<Rightarrow> error + StateUpdate" where
  "reflection apiKey outcome state =
     (if apiKey = None \<or> apiKey = Some [] then Inl (Error ''GOOGLE_API_KEY is required'')
      else (case outcome of
              Inl e \<Rightarrow> Inl e
            | Inr result \<Rightarrow>
                Inr (noUpdate\<lparr>
                  isSufficientUpd := Some (respIsSufficient result),
                  knowledgeGapUpd := Some (respKnowledgeGap result),
                  followUpQueriesUpd :=
                    Elements (case respFollowUpQueries result of None \<Rightarrow> [] | Some qs \<Rightarrow> qs),
                  researchLoopCountUpd := Some (researchLoopCount state + 1),
                  numberOfRanQueriesUpd := Some (int (length (searchQuery state)))\<rparr>)))"

definition evaluateResearch :: "Configuration \<Rightarrow> OverallState \<Rightarrow> Route" where
  "evaluateResearch configuration state =
     (let maxLoops = (case maxResearchLoops state of Some m \<Rightarrow> m
                      | None \<Rightarrow> configMaxResearchLoops configuration)
      in if isSufficient state \<or> researchLoopCount state \<ge> maxLoops
         then NodeName ''finalizeAnswer''
         else SendObjects (map (\<lambda>(idx, followUpQuery).
                       \<lparr>node = ''webResearch'',
                        args = \<lparr>argSearchQuery = followUpQuery,
                                argId = numberOfRanQueries state + int idx\<rparr>\<rparr>)
                     (withIndex (followUpQueries state))))"

section \<open>Initial state and successive reflections (agent/graph.ts)\<close>

text \<open>The defaults of the channels of \<open>GraphState\<close>.\<close>

definition graphStateDefault :: OverallState where
  "graphStateDefault =
     \<lparr>messages = [], searchQuery = [], webResearchResult = [], sourcesGathered = [],
      initialSearchQueryCount = 0, maxResearchLoops = Some 2, researchLoopCount = 0,
      reasoningModel = ''gemini-2.0-flash'', queryList = [], isSufficient = False,
      knowledgeGap = [], followUpQueries = [], numberOfRanQueries = 0\<rparr>"

text \<open>
  Successive \<open>reflection\<close> steps whose model calls succeed with the given responses,
  each update merged into the state before the next step.
\<close>

fun reflections ::
  "string option \<Rightarrow> ReflectionResponse list \<Rightarrow> OverallState \<Rightarrow> error + OverallState" where
  "reflections apiKey [] st = Inr st"
| "reflections apiKey (r # rs) st =
     (case reflection apiKey (Inr r) st of
        Inl e \<Rightarrow> Inl e
      | Inr u \<Rightarrow> reflections apiKey rs (applyUpdate st u))"

section \<open>Specification of getCitations\<close>






section \<open>finalizeAnswer (agent/nodes.ts)\<close>

text \<open>\<open>content.includes(p)\<close>: \<open>p\<close> occurs somewhere in \<open>content\<close>.\<close>

fun includesText :: "string \<Rightarrow> string \<Rightarrow> bool" where
  "includesText [] p = (p = [])"
| "includesText (x # xs) p = (prefix p (x # xs) \<or> includesText xs p)"

text \<open>
  The replacement text of \<open>String.prototype.replace\<close> is a template. The pattern here
  has no capture groups, so the special sequences are a doubled dollar sign (one
  dollar sign), dollar-ampersand (the matched text), dollar-backtick (everything
  before the match) and dollar-apostrophe (everything after it); any other dollar
  sign stands for itself.
\<close>

fun expandReplacement :: "string \<Rightarrow> string \<Rightarrow> string \<Rightarrow> string \<Rightarrow> string" where
  "expandReplacement matched textBefore textAfter [] = []"
| "expandReplacement matched textBefore textAfter [c] = [c]"
| "expandReplacement matched textBefore textAfter (c # d # rest) =
     (if c = CHR ''$'' then
        (if d = CHR ''$'' then CHR ''$'' # expandReplacement matched textBefore textAfter rest
         else if d = CHR ''&'' then matched @ expandReplacement matched textBefore textAfter rest
         else if d = CHR 0x60 then textBefore @ expandReplacement matched textBefore textAfter rest
         else if d = CHR 0x27 then textAfter @ expandReplacement matched textBefore textAfter rest
         else c # expandReplacement matched textBefore textAfter (d # rest))
      else c # expandReplacement matched textBefore textAfter (d # rest))"

text \<open>
  \<open>content.replace(new RegExp(escaped, 'g'), template)\<close>. The short URL is escaped
  when it is made into a regular expression, so the expression matches the short URL
  itself: the occurrences are found from left to right, each search starting behind the
  previous match. \<open>textBefore\<close> is the part of the original text already passed. The
  caller has checked that the pattern is not empty.
\<close>

function replaceFrom :: "string \<Rightarrow> string \<Rightarrow> string \<Rightarrow> string \<Rightarrow> string" where
  "replaceFrom p template textBefore [] = []"
| "replaceFrom p template textBefore (x # xs) =
     (if p \<noteq> [] \<and> prefix p (x # xs)
      then expandReplacement p textBefore (drop (length p) (x # xs)) template
             @ replaceFrom p template (textBefore @ p) (drop (length p) (x # xs))
      else x # replaceFrom p template (textBefore @ [x]) xs)"
  by pat_completeness auto
termination
  by (relation "measure (\<lambda>(p, template, textBefore, s). length s)") auto

definition replaceAllLiteral :: "string \<Rightarrow> string \<Rightarrow> string \<Rightarrow> string" where
  "replaceAllLiteral content p template = replaceFrom p template [] content"

text \<open>
  The loop over \<open>state.sourcesGathered\<close>, with its three variables: \<open>finalContent\<close>,
  \<open>uniqueSources\<close> and the set \<open>seenUrls\<close>.
\<close>

fun finalizeLoop ::
  "string \<Rightarrow> SourceInfo list \<Rightarrow> string set \<Rightarrow> SourceInfo list \<Rightarrow> string \<times> SourceInfo list" where
  "finalizeLoop finalContent uniqueSources seenUrls [] = (finalContent, uniqueSources)"
| "finalizeLoop finalContent uniqueSources seenUrls (source # rest) =
     (if shortUrl source \<noteq> [] \<and> includesText finalContent (shortUrl source)
      then (if value source \<notin> seenUrls
            then finalizeLoop (replaceAllLiteral finalContent (shortUrl source) (value source))
                   (uniqueSources @ [source]) (insert (value source) seenUrls) rest
            else finalizeLoop (replaceAllLiteral finalContent (shortUrl source) (value source))
                   uniqueSources seenUrls rest)
      else finalizeLoop finalContent uniqueSources seenUrls rest)"

text \<open>
  \<open>finalizeAnswer\<close>. \<open>apiKey\<close> is the environment variable and \<open>outcome\<close> the result of
  the model call, the content of the answer.
\<close>

definition finalizeAnswer ::
  "string option \<Rightarrow> error + string \<Rightarrow> OverallState \<Rightarrow> error + StateUpdate" where
  "finalizeAnswer apiKey outcome state =
     (if apiKey = None \<or> apiKey = Some [] then Inl (Error ''GOOGLE_API_KEY is required'')
      else (case outcome of
              Inl e \<Rightarrow> Inl e
            | Inr content \<Rightarrow>
                (case finalizeLoop content [] {} (sourcesGathered state) of
                   (finalContent, uniqueSources) \<Rightarrow>
                     Inr (noUpdate\<lparr>messagesUpd := Elements [AIMessage finalContent],
                                   sourcesGatheredUpd := Elements uniqueSources\<rparr>))))"

section \<open>Specification of the final sources\<close>

text \<open>
  The gathered sources that are cited: those whose non-empty short URL occurs in the
  answer as the sources before them have rewritten it.
\<close>

fun citedSources :: "string \<Rightarrow> SourceInfo list \<Rightarrow> SourceInfo list" where
  "citedSources content [] = []"
| "citedSources content (source # rest) =
     (if shortUrl source \<noteq> [] \<and> includesText content (shortUrl source)
      then source # citedSources (replaceAllLiteral content (shortUrl source) (value source)) rest
      else citedSources content rest)"

text \<open>The answer after the cited sources, in order, have had their short URL replaced.\<close>

fun rewrittenAnswer :: "string \<Rightarrow> SourceInfo list \<Rightarrow> string" where
  "rewrittenAnswer content [] = content"
| "rewrittenAnswer content (source # rest) =
     (if shortUrl source \<noteq> [] \<and> includesText content (shortUrl source)
      then rewrittenAnswer (replaceAllLiteral content (shortUrl source) (value source)) rest
      else rewrittenAnswer content rest)"

text \<open>One entry per original URL: the first source that carries it, in first-seen order.\<close>

fun firstPerUrl :: "SourceInfo list \<Rightarrow> SourceInfo list" where
  "firstPerUrl [] = []"
| "firstPerUrl (s # ss) = s # firstPerUrl (filter (\<lambda>t. value t \<noteq> value s) ss)"

section \<open>Properties\<close>

subsection \<open>Helper facts about the nodes and reducers\<close>

lemma webResearch_searchQuery:
  "searchQuery (applyUpdate st (webResearch a outcome)) = searchQuery st @ [argSearchQuery a]"
  by (cases outcome)
    (simp_all add: webResearch_def applyUpdate_def arrayAccumulator_def noUpdate_def Let_def)

lemma reflection_succeeds:
  assumes "apiKey = Some k" "k \<noteq> []"
  obtains u where "reflection apiKey (Inr r) st = Inr u"
    and "researchLoopCount (applyUpdate st u) = researchLoopCount st + 1"
    and "isSufficient (applyUpdate st u) = respIsSufficient r"
    and "maxResearchLoops (applyUpdate st u) = maxResearchLoops st"
  using assms
  by (simp add: reflection_def applyUpdate_def simpleValue_def noUpdate_def)

lemma reflection_numberOfRanQueries:
  assumes "reflection apiKey outcome st = Inr u"
  shows "numberOfRanQueries (applyUpdate st u) = int (length (searchQuery st))"
    and "searchQuery (applyUpdate st u) = searchQuery st"
  using assms
  by (auto simp: reflection_def applyUpdate_def simpleValue_def noUpdate_def
      arrayAccumulator_def split: if_splits sum.splits)

lemma reflections_count:
  assumes "apiKey = Some k" "k \<noteq> []" "\<forall>r \<in> set rs. \<not> respIsSufficient r" "rs \<noteq> []"
  shows "\<exists>st'. reflections apiKey rs st = Inr st'
     \<and> researchLoopCount st' = researchLoopCount st + int (length rs)
     \<and> \<not> isSufficient st' \<and> maxResearchLoops st' = maxResearchLoops st"
  using assms
proof (induction rs arbitrary: st)
  case Nil
  then show ?case by simp
next
  case (Cons r rs)
  from Cons.prems(1,2) obtain u where u: "reflection apiKey (Inr r) st = Inr u"
    "researchLoopCount (applyUpdate st u) = researchLoopCount st + 1"
    "isSufficient (applyUpdate st u) = respIsSufficient r"
    "maxResearchLoops (applyUpdate st u) = maxResearchLoops st"
    by (rule reflection_succeeds)
  show ?case
  proof (cases "rs = []")
    case True
    with Cons.prems u show ?thesis by simp
  next
    case False
    with Cons.prems have "\<exists>st'. reflections apiKey rs (applyUpdate st u) = Inr st' \<and>
        researchLoopCount st' = researchLoopCount (applyUpdate st u) + int (length rs)
        \<and> \<not> isSufficient st' \<and> maxResearchLoops st' = maxResearchLoops (applyUpdate st u)"
      by (intro Cons.IH) simp_all
    with u show ?thesis by auto
  qed
qed

lemma evaluateResearch_ids:
  assumes "evaluateResearch cfg st = SendObjects sends" and "numberOfRanQueries st = int n"
  shows "map (\<lambda>s. argId (args s)) sends = map int [n ..< n + length sends]"
  using assms
  by (auto simp: evaluateResearch_def Let_def withIndex_def split: if_splits
      intro!: nth_equalityI)

lemma continueToWebResearch_ids:
  "map (\<lambda>s. argId (args s)) (continueToWebResearch st) =
     map int [0 ..< length (continueToWebResearch st)]"
  by (auto simp: continueToWebResearch_def withIndex_def intro!: nth_equalityI)

lemma webResearch_searchQueryUpd:
  "searchQueryUpd (webResearch a outcome) = Elements [argSearchQuery a]"
  by (cases outcome) (simp_all add: webResearch_def noUpdate_def Let_def)

lemma accumulate_branches:
  "foldl (arrayAccumulator falsyString) current
     (map (\<lambda>b. searchQueryUpd (webResearch (fst b) (snd b))) branches) =
   current @ map (\<lambda>b. argSearchQuery (fst b)) branches"
  by (induction branches arbitrary: current)
    (simp_all add: webResearch_searchQueryUpd arrayAccumulator_def)

lemma turns_ids:
  assumes "\<forall>t \<in> set turns. evaluateResearch cfg (fst t) = SendObjects (snd t)"
    and "\<forall>k < length turns. numberOfRanQueries (fst (turns ! k)) =
           int (length initial + length (concat (map snd (take k turns))))"
    and "map (\<lambda>s. argId (args s)) initial = map int [0 ..< length initial]"
  shows "map (\<lambda>s. argId (args s)) (initial @ concat (map snd turns)) =
           map int [0 ..< length (initial @ concat (map snd turns))]"
  using assms(1,2)
proof (induction turns rule: rev_induct)
  case Nil
  then show ?case using assms(3) by simp
next
  case (snoc t turns)
  let ?done = "initial @ concat (map snd turns)"
  have "\<forall>k < length turns. numberOfRanQueries (fst (turns ! k)) =
           int (length initial + length (concat (map snd (take k turns))))"
  proof (intro allI impI)
    fix k assume k: "k < length turns"
    then have "numberOfRanQueries (fst ((turns @ [t]) ! k)) =
        int (length initial + length (concat (map snd (take k (turns @ [t])))))"
      using snoc.prems(2)[rule_format, of k] by simp
    with k show "numberOfRanQueries (fst (turns ! k)) =
        int (length initial + length (concat (map snd (take k turns))))"
      by (simp add: nth_append)
  qed
  with snoc have IH: "map (\<lambda>s. argId (args s)) ?done = map int [0 ..< length ?done]"
    by simp
  have "numberOfRanQueries (fst ((turns @ [t]) ! length turns)) =
      int (length initial + length (concat (map snd (take (length turns) (turns @ [t])))))"
    using snoc.prems(2)[rule_format, of "length turns"] by simp
  then have n: "numberOfRanQueries (fst t) = int (length ?done)" by simp
  have e: "evaluateResearch cfg (fst t) = SendObjects (snd t)"
    using snoc.prems(1) by simp
  have new: "map (\<lambda>s. argId (args s)) (snd t) =
      map int [length ?done ..< length ?done + length (snd t)]"
    using evaluateResearch_ids[OF e n] .
  have "map (\<lambda>s. argId (args s)) (?done @ snd t) =
      map int ([0 ..< length ?done] @ [length ?done ..< length ?done + length (snd t)])"
    using IH new by (simp only: map_append)
  also have "\<dots> = map int [0 ..< length ?done + length (snd t)]"
    using upt_add_eq_append[of 0 "length ?done" "length (snd t)"] by simp
  finally show ?case by (simp add: add.assoc)
qed


subsection \<open>Decimal numerals and short URLs\<close>

lemma digitChar_inj:
  assumes "d < 10" "e < 10" "digitChar d = digitChar e"
  shows "d = e"
proof -
  have "distinct ''0123456789''" by simp
  moreover have "d < length ''0123456789''" "e < length ''0123456789''"
    using assms by simp_all
  ultimately show ?thesis
    using assms(3) unfolding digitChar_def by (simp only: nth_eq_iff_index_eq)
qed

lemma showNat_small: "n < 10 \<Longrightarrow> showNat n = [digitChar n]"
  by (simp add: showNat.simps)

lemma showNat_large:
  "\<not> n < 10 \<Longrightarrow> showNat n = showNat (n div 10) @ [digitChar (n mod 10)]"
  by (subst showNat.simps) simp

lemma showNat_nonempty: "showNat n \<noteq> []"
  by (subst showNat.simps) simp

lemma showNat_inj: "showNat n = showNat m \<Longrightarrow> n = m"
proof (induction n arbitrary: m rule: showNat.induct)
  case (1 n)
  show ?case
  proof (cases "n < 10")
    case n: True
    show ?thesis
    proof (cases "m < 10")
      case True
      with n "1.prems" show ?thesis
        by (simp add: showNat_small digitChar_inj)
    next
      case False
      with n "1.prems" have "[digitChar n] = showNat (m div 10) @ [digitChar (m mod 10)]"
        by (simp add: showNat_small showNat_large)
      then have "showNat (m div 10) = []" by simp
      then show ?thesis by (simp add: showNat_nonempty)
    qed
  next
    case n: False
    show ?thesis
    proof (cases "m < 10")
      case True
      with n "1.prems" have "showNat (n div 10) @ [digitChar (n mod 10)] = [digitChar m]"
        by (simp add: showNat_small showNat_large)
      then show ?thesis by (simp add: showNat_nonempty)
    next
      case False
      with n "1.prems" have eq: "showNat (n div 10) = showNat (m div 10)"
        "digitChar (n mod 10) = digitChar (m mod 10)"
        by (simp_all add: showNat_large)
      have "n div 10 = m div 10" using "1.IH"[OF n eq(1)] .
      moreover have "n mod 10 = m mod 10"
        using eq(2) by (intro digitChar_inj) simp_all
      ultimately show ?thesis by (metis div_mult_mod_eq)
    qed
  qed
qed

lemma shortUrlFor_inj: "shortUrlFor bid i = shortUrlFor bid j \<Longrightarrow> i = j"
  by (simp add: shortUrlFor_def showNat_inj)

lemma shortUrlFor_nonempty: "shortUrlFor bid i \<noteq> []"
  by (simp add: shortUrlFor_def urlPrefix_def)

subsection \<open>What resolveUrls computes\<close>

lemma resolveLoop_lookup:
  "resolveLoop bid m idx urls u =
     (if \<not> falsyLookup m u then m u
      else if u \<noteq> [] \<and> u \<in> set urls
           then Some (shortUrlFor bid (idx + length (takeWhile (\<lambda>x. x \<noteq> u) urls)))
           else m u)"
proof (induction urls arbitrary: m idx)
  case Nil
  then show ?case by simp
next
  case (Cons url urls)
  show ?case
    by (auto simp: Cons.IH falsyLookup_def shortUrlFor_nonempty split: option.splits)
qed

lemma resolveUrls_lookup:
  "resolveUrls chunks bid u =
     (if u \<noteq> [] \<and> u \<in> chunkUri ` set chunks \<and> u \<notin> set objectPrototypeKeys
      then Some (shortUrlFor bid (length (takeWhile (\<lambda>c. chunkUri c \<noteq> u) chunks)))
      else None)"
  by (simp add: resolveUrls_def resolveLoop_lookup falsyLookup_def takeWhile_map comp_def)

lemma first_occurrence:
  assumes "u \<in> f ` set xs"
  shows "length (takeWhile (\<lambda>c. f c \<noteq> u) xs) < length xs"
    and "f (xs ! length (takeWhile (\<lambda>c. f c \<noteq> u) xs)) = u"
    and "\<forall>j < length (takeWhile (\<lambda>c. f c \<noteq> u) xs). f (xs ! j) \<noteq> u"
proof -
  from assms have ex: "\<exists>c \<in> set xs. \<not> f c \<noteq> u" by auto
  have "takeWhile (\<lambda>c. f c \<noteq> u) xs \<noteq> xs"
    using ex by simp
  then have "length (takeWhile (\<lambda>c. f c \<noteq> u) xs) \<noteq> length xs"
    by (metis takeWhile_eq_take take_all order_refl)
  with length_takeWhile_le[of "\<lambda>c. f c \<noteq> u" xs]
  show l: "length (takeWhile (\<lambda>c. f c \<noteq> u) xs) < length xs"
    by simp
  from nth_length_takeWhile[OF l] show "f (xs ! length (takeWhile (\<lambda>c. f c \<noteq> u) xs)) = u"
    by simp
  show "\<forall>j < length (takeWhile (\<lambda>c. f c \<noteq> u) xs). f (xs ! j) \<noteq> u"
    using nth_mem[of _ "takeWhile (\<lambda>c. f c \<noteq> u) xs"] set_takeWhileD[of _ "\<lambda>c. f c \<noteq> u" xs]
      takeWhile_nth[of _ "\<lambda>c. f c \<noteq> u" xs]
    by metis
qed

lemma resolveUrls_SomeD:
  assumes "resolveUrls chunks bid u = Some s"
  shows "u \<in> chunkUri ` set chunks"
    and "s = shortUrlFor bid (length (takeWhile (\<lambda>c. chunkUri c \<noteq> u) chunks))"
  using assms by (simp_all add: resolveUrls_lookup split: if_splits)


subsection \<open>Replacement and the final sources\<close>

lemma expandReplacement_plain:
  "CHR ''$'' \<notin> set template \<Longrightarrow> expandReplacement matched pre post template = template"
  by (induction matched pre post template rule: expandReplacement.induct) auto

lemma replaceFrom_absent:
  "\<not> includesText s p \<Longrightarrow> replaceFrom p template pre s = s"
  by (induction s arbitrary: pre) simp_all

lemma includesText_append_left:
  "includesText s p \<Longrightarrow> includesText (u @ s) p"
  by (induction u) simp_all

lemma replaceFrom_leftmost:
  assumes "p \<noteq> []" "CHR ''$'' \<notin> set template" "\<not> includesText (u @ butlast p) p"
  shows "replaceFrom p template pre (u @ p @ v) = u @ template @ replaceFrom p template (pre @ u @ p) v"
  using assms(3)
proof (induction u arbitrary: pre)
  case Nil
  obtain x xs where x: "p @ v = x # xs"
    using assms(1) by (cases "p @ v") simp_all
  have "prefix p (x # xs)" unfolding x[symmetric] by simp
  moreover have "drop (length p) (x # xs) = v" unfolding x[symmetric] by simp
  ultimately have "replaceFrom p template pre (x # xs) =
      template @ replaceFrom p template (pre @ p) v"
    using assms(1,2) by (simp add: expandReplacement_plain)
  then show ?case by (simp add: x)
next
  case (Cons y u)
  from Cons.prems have np: "\<not> prefix p (y # u @ butlast p)"
    and rest: "\<not> includesText (u @ butlast p) p"
    by simp_all
  have "\<not> prefix p (y # u @ p @ v)"
  proof
    assume a: "prefix p (y # u @ p @ v)"
    have b: "prefix (y # u @ butlast p) (y # u @ p @ v)"
      using assms(1) by (simp add: prefix_def) (metis append_butlast_last_id append_assoc)
    have "length p \<le> length (y # u @ butlast p)" by simp
    with a b have "prefix p (y # u @ butlast p)" by (rule prefix_length_prefix)
    with np show False by contradiction
  qed
  then show ?case using Cons.IH[OF rest] by simp
qed

lemma finalizeLoop_none_cited:
  "\<forall>s \<in> set gathered. shortUrl s = [] \<or> \<not> includesText content (shortUrl s) \<Longrightarrow>
   finalizeLoop content uniqueSources seenUrls gathered = (content, uniqueSources)"
  by (induction gathered) auto

lemma finalizeLoop_sources:
  "snd (finalizeLoop content uniqueSources seenUrls gathered) =
     uniqueSources @ firstPerUrl (filter (\<lambda>s. value s \<notin> seenUrls) (citedSources content gathered))"
proof (induction gathered arbitrary: content uniqueSources seenUrls)
  case Nil
  then show ?case by simp
next
  case (Cons source rest)
  have f: "\<And>xs. filter (\<lambda>t. value t \<noteq> value source) (filter (\<lambda>s. value s \<notin> seenUrls) xs) =
      filter (\<lambda>s. value s \<notin> insert (value source) seenUrls) xs"
    subgoal for xs by (induction xs) auto
    done
  show ?case by (simp add: Cons.IH f del: filter_filter insert_iff)
qed

lemma firstPerUrl_values: "value ` set (firstPerUrl xs) = value ` set xs"
  by (induction xs rule: firstPerUrl.induct) auto

lemma firstPerUrl_distinct: "distinct (map value (firstPerUrl xs))"
proof (induction xs rule: firstPerUrl.induct)
  case 1
  then show ?case by simp
next
  case (2 s ss)
  have "value s \<notin> value ` set (filter (\<lambda>t. value t \<noteq> value s) ss)"
    by (force simp: image_iff)
  then have "value s \<notin> value ` set (firstPerUrl (filter (\<lambda>t. value t \<noteq> value s) ss))"
    unfolding firstPerUrl_values .
  with 2 show ?case by simp
qed

lemma firstPerUrl_subseq: "subseq (firstPerUrl xs) xs"
proof (induction xs rule: firstPerUrl.induct)
  case 1
  then show ?case by simp
next
  case (2 s ss)
  have "subseq (filter (\<lambda>t. value t \<noteq> value s) ss) ss" by simp
  with 2 have "subseq (firstPerUrl (filter (\<lambda>t. value t \<noteq> value s) ss)) ss"
    by (rule subseq_order.trans)
  then show ?case by simp
qed

lemma replaceFrom_plain_pre:
  "CHR ''$'' \<notin> set template \<Longrightarrow>
   replaceFrom p template pre s = replaceFrom p template pre' s"
proof (induction s arbitrary: pre pre' rule: length_induct)
  case (1 s)
  show ?case
  proof (cases s)
    case Nil
    then show ?thesis by simp
  next
    case (Cons x xs)
    show ?thesis
    proof (cases "p \<noteq> [] \<and> prefix p (x # xs)")
      case True
      then have "length (drop (length p) (x # xs)) < length s"
        using Cons by (cases p) simp_all
      with 1 have "replaceFrom p template (pre @ p) (drop (length p) (x # xs)) =
          replaceFrom p template (pre' @ p) (drop (length p) (x # xs))"
        by blast
      with True Cons 1(2) show ?thesis by (simp add: expandReplacement_plain)
    next
      case False
      have "length xs < length s" using Cons by simp
      with 1 have "replaceFrom p template (pre @ [x]) xs = replaceFrom p template (pre' @ [x]) xs"
        by blast
      with False Cons show ?thesis by auto
    qed
  qed
qed

lemma finalizeLoop_answer:
  "fst (finalizeLoop content uniqueSources seenUrls gathered) = rewrittenAnswer content gathered"
  by (induction gathered arbitrary: content uniqueSources seenUrls) simp_all

lemma includesText_sublist: "includesText t p = sublist p t"
  by (induction t) (simp_all add: sublist_Cons_right)

lemma finalizeLoop_result:
  "finalizeLoop content [] {} gathered =
     (rewrittenAnswer content gathered, firstPerUrl (citedSources content gathered))"
proof -
  have "fst (finalizeLoop content [] {} gathered) = rewrittenAnswer content gathered"
    by (rule finalizeLoop_answer)
  moreover have "snd (finalizeLoop content [] {} gathered) =
      firstPerUrl (citedSources content gathered)"
    by (simp add: finalizeLoop_sources)
  ultimately show ?thesis by (simp add: prod_eq_iff)
qed


subsection \<open>insertCitationMarkers\<close>

lemma compareCitations_key:
  "(compareCitations a b \<le> 0) = (citationKey a \<le> citationKey b)"
  by (auto simp: compareCitations_def citationKey_def)

lemma insertBy_insort_key:
  "insertBy compareCitations x ys = insort_key citationKey x ys"
  by (induction ys) (simp_all add: compareCitations_key)

lemma sortBy_sort_key: "sortBy compareCitations cs = sort_key citationKey cs"
  unfolding sortBy_def sort_key_def
  by (induction cs) (simp_all add: insertBy_insort_key)

lemma sorted_unique_by_key:
  assumes "sorted (map f xs)" "sorted (map f ys)" "mset xs = mset ys" "inj_on f (set xs)"
  shows "xs = ys"
proof -
  have "mset (map f xs) = mset (map f ys)"
    using assms(3) by simp
  then have "sort (map f ys) = map f xs"
    using assms(1) by (intro properties_for_sort) simp_all
  moreover have "sort (map f ys) = map f ys"
    using assms(2) by (simp add: sorted_sort_id)
  ultimately have m: "map f xs = map f ys" by simp
  have "set ys = set xs"
    using assms(3) by (metis set_mset_mset)
  then have "inj_on f (set xs \<union> set ys)"
    using assms(4) by simp
  with m show ?thesis by (simp add: inj_on_map_eq_map)
qed

lemma spliceMarker_in_range:
  assumes "0 \<le> endIndex c" "endIndex c \<le> int (length t)"
  shows "spliceMarker t c =
     take (nat (endIndex c)) t @ markerToInsert (segments c) @ drop (nat (endIndex c)) t"
proof -
  have "relIndex (endIndex c) (length t) = nat (endIndex c)"
    using assms by (auto simp: relIndex_def min_def nat_le_iff)
  then show ?thesis
    by (simp add: spliceMarker_def sliceTo_def sliceFrom_def)
qed

lemma spliceMarker_append:
  assumes "0 \<le> endIndex c" "endIndex c \<le> int (length t)"
  shows "spliceMarker (t @ s) c = spliceMarker t c @ s"
proof -
  have "endIndex c \<le> int (length (t @ s))" using assms(2) by simp
  then show ?thesis
    using assms by (simp add: spliceMarker_in_range)
qed

lemma foldl_spliceMarker_append:
  "\<forall>c \<in> set cs. 0 \<le> endIndex c \<and> endIndex c \<le> int (length t) \<Longrightarrow>
   foldl spliceMarker (t @ s) cs = foldl spliceMarker t cs @ s"
proof (induction cs arbitrary: t)
  case Nil
  then show ?case by simp
next
  case (Cons c cs)
  have "length t \<le> length (spliceMarker t c)"
    using Cons.prems by (simp add: spliceMarker_in_range)
  then have "\<forall>d \<in> set cs. 0 \<le> endIndex d \<and> endIndex d \<le> int (length (spliceMarker t c))"
    using Cons.prems by fastforce
  then have "foldl spliceMarker (spliceMarker t c @ s) cs =
      foldl spliceMarker (spliceMarker t c) cs @ s"
    by (rule Cons.IH)
  then show ?case using Cons.prems by (simp add: spliceMarker_append)
qed

lemma insertAtOffsets_snoc:
  assumes "\<forall>a \<in> set as. endIndex a \<le> endIndex d"
    and "0 \<le> endIndex d" "endIndex d \<le> int (length t)"
  shows "insertAtOffsets t pos (as @ [d]) =
     insertAtOffsets (take (nat (endIndex d)) t) pos as
       @ markerToInsert (segments d) @ drop (nat (endIndex d)) t"
  using assms(1)
proof (induction as arbitrary: pos)
  case Nil
  show ?case by (simp add: drop_take)
next
  case (Cons a as)
  have "nat (endIndex a) \<le> nat (endIndex d)" using Cons.prems by (simp add: nat_mono)
  then have "take (nat (endIndex a) - pos) (drop pos (take (nat (endIndex d)) t)) =
      take (nat (endIndex a) - pos) (drop pos t)"
    by (simp add: drop_take min_def)
  then show ?case using Cons by simp
qed

lemma foldl_spliceMarker_offsets:
  assumes "sorted_wrt (\<lambda>a b. endIndex b \<le> endIndex a) ds"
    and "\<forall>c \<in> set ds. 0 \<le> endIndex c \<and> endIndex c \<le> int (length t)"
  shows "foldl spliceMarker t ds = insertAtOffsets t 0 (rev ds)"
  using assms
proof (induction ds arbitrary: t)
  case Nil
  then show ?case by simp
next
  case (Cons d ds)
  let ?k = "nat (endIndex d)"
  have d: "0 \<le> endIndex d" "endIndex d \<le> int (length t)"
    using Cons.prems(2) by simp_all
  have below: "\<forall>c \<in> set ds. endIndex c \<le> endIndex d"
    using Cons.prems(1) by simp
  have range: "\<forall>c \<in> set ds. 0 \<le> endIndex c \<and> endIndex c \<le> int (length (take ?k t))"
    using Cons.prems(2) below d by auto
  have sorted: "sorted_wrt (\<lambda>a b. endIndex b \<le> endIndex a) ds"
    using Cons.prems(1) by simp
  have "foldl spliceMarker t (d # ds) =
      foldl spliceMarker (take ?k t @ (markerToInsert (segments d) @ drop ?k t)) ds"
    using d by (simp add: spliceMarker_in_range)
  also have "\<dots> = foldl spliceMarker (take ?k t) ds
      @ (markerToInsert (segments d) @ drop ?k t)"
    using range by (rule foldl_spliceMarker_append)
  also have "\<dots> = insertAtOffsets (take ?k t) 0 (rev ds)
      @ markerToInsert (segments d) @ drop ?k t"
    using Cons.IH[OF sorted range] by simp
  also have "\<dots> = insertAtOffsets t 0 (rev ds @ [d])"
    using below d by (simp add: insertAtOffsets_snoc)
  finally show ?case by simp
qed

lemma sortBy_descending_end:
  "sorted_wrt (\<lambda>a b. endIndex b \<le> endIndex a) (sortBy compareCitations cs)"
proof -
  have "sorted (map citationKey (sort_key citationKey cs))" by simp
  then have "sorted_wrt (\<lambda>a b. citationKey a \<le> citationKey b) (sort_key citationKey cs)"
    by (simp only: sorted_map)
  then have "sorted_wrt (\<lambda>a b. endIndex b \<le> endIndex a) (sort_key citationKey cs)"
    by (rule sorted_wrt_mono_rel[rotated]) (auto simp: citationKey_def)
  then show ?thesis by (simp only: sortBy_sort_key)
qed

text \<open>
  Claim C1, as the code has it. The citations are sorted by descending end offset,
  ties by descending start offset, and the marker groups are spliced in that order.
  With every end offset inside the text, the result is the original text with the
  marker group of every citation put at the end offset of that citation, as one pass
  in ascending order would put them: a later splice never moves an earlier offset.
  The sort is stable, so citations that agree on both offsets keep their input order;
  when no two different citations of the list agree on both offsets, the result is
  fixed by any descending arrangement of the list, and every permutation of the list
  gives the same text.
\<close>

theorem insertCitationMarkers_permutation:
  "(mset cs' = mset cs \<and> inj_on (\<lambda>c. (endIndex c, startIndex c)) (set cs)
      \<longrightarrow> insertCitationMarkers txt cs' = insertCitationMarkers txt cs)
   \<and> ((\<forall>c \<in> set cs. 0 \<le> endIndex c \<and> endIndex c \<le> int (length txt)) \<longrightarrow>
        insertCitationMarkers txt cs =
          insertAtOffsets txt 0 (rev (sortBy compareCitations cs)))
   \<and> ((\<forall>c \<in> set cs. 0 \<le> endIndex c \<and> endIndex c \<le> int (length txt))
        \<and> inj_on (\<lambda>c. (endIndex c, startIndex c)) (set cs)
        \<and> mset ds = mset cs
        \<and> sorted_wrt (\<lambda>a b. endIndex b < endIndex a
                    \<or> (endIndex b = endIndex a \<and> startIndex b \<le> startIndex a)) ds
      \<longrightarrow> insertCitationMarkers txt cs = insertAtOffsets txt 0 (rev ds))
   \<and> (0 \<le> endIndex c \<and> endIndex c \<le> int (length txt) \<longrightarrow>
        insertCitationMarkers txt [c] =
          take (nat (endIndex c)) txt @ markerToInsert (segments c)
            @ drop (nat (endIndex c)) txt)
   \<and> (0 \<le> endIndex c1 \<and> endIndex c1 < endIndex c2 \<and> endIndex c2 \<le> int (length txt) \<longrightarrow>
        insertCitationMarkers txt [c1, c2] =
          take (nat (endIndex c1)) txt @ markerToInsert (segments c1)
            @ take (nat (endIndex c2) - nat (endIndex c1)) (drop (nat (endIndex c1)) txt)
            @ markerToInsert (segments c2) @ drop (nat (endIndex c2)) txt
        \<and> insertCitationMarkers txt [c2, c1] = insertCitationMarkers txt [c1, c2])
   \<and> markerToInsert [src] = '' ['' @ label src @ '']('' @ shortUrl src @ '')''
   \<and> markerToInsert (srcs @ srcs') = markerToInsert srcs @ markerToInsert srcs'
   \<and> sorted_wrt (\<lambda>a b. endIndex b < endIndex a
                    \<or> (endIndex b = endIndex a \<and> startIndex b \<le> startIndex a))
        (sortBy compareCitations cs)
   \<and> mset (sortBy compareCitations cs) = mset cs
   \<and> (0 \<le> endIndex c \<and> endIndex c \<le> int (length txt) \<longrightarrow>
        spliceMarker txt c =
          take (nat (endIndex c)) txt @ markerToInsert (segments c)
            @ drop (nat (endIndex c)) txt)"
proof -
  have key_rel: "(\<lambda>a b. citationKey a \<le> citationKey b) =
      (\<lambda>a b. endIndex b < endIndex a
                    \<or> (endIndex b = endIndex a \<and> startIndex b \<le> startIndex a))"
    by (intro ext) (auto simp: citationKey_def)
  have inj: "inj_on citationKey (set xs)"
    if "inj_on (\<lambda>c. (endIndex c, startIndex c)) (set xs)" for xs
  proof (rule inj_onI)
    fix x y assume "x \<in> set xs" "y \<in> set xs" "citationKey x = citationKey y"
    then have "(endIndex x, startIndex x) = (endIndex y, startIndex y)"
      by (simp add: citationKey_def)
    with that \<open>x \<in> set xs\<close> \<open>y \<in> set xs\<close> show "x = y"
      by (auto dest: inj_onD)
  qed
  have offsets: "insertCitationMarkers txt xs =
      insertAtOffsets txt 0 (rev (sortBy compareCitations xs))"
    if "\<forall>c \<in> set xs. 0 \<le> endIndex c \<and> endIndex c \<le> int (length txt)" for xs
  proof -
    have "\<forall>c \<in> set (sortBy compareCitations xs).
        0 \<le> endIndex c \<and> endIndex c \<le> int (length txt)"
      using that by (simp add: sortBy_sort_key)
    with sortBy_descending_end[of xs] show ?thesis
      unfolding insertCitationMarkers_def by (rule foldl_spliceMarker_offsets)
  qed
  have p1: "insertCitationMarkers txt cs' = insertCitationMarkers txt cs"
    if a: "mset cs' = mset cs \<and> inj_on (\<lambda>c. (endIndex c, startIndex c)) (set cs)"
  proof -
    have "inj_on citationKey (set cs)" using a by (intro inj) simp
    then have "inj_on citationKey (set (sort_key citationKey cs'))"
      using a by (metis set_sort set_mset_mset)
    moreover have "mset (sort_key citationKey cs') = mset (sort_key citationKey cs)"
      using a by simp
    ultimately have "sort_key citationKey cs' = sort_key citationKey cs"
      by (intro sorted_unique_by_key[of citationKey]) simp_all
    then show ?thesis
      by (simp add: insertCitationMarkers_def sortBy_sort_key)
  qed
  have p2: "insertCitationMarkers txt cs =
      insertAtOffsets txt 0 (rev (sortBy compareCitations cs))"
    if "\<forall>c \<in> set cs. 0 \<le> endIndex c \<and> endIndex c \<le> int (length txt)"
    using that by (rule offsets)
  have p3: "insertCitationMarkers txt cs = insertAtOffsets txt 0 (rev ds)"
    if a: "(\<forall>c \<in> set cs. 0 \<le> endIndex c \<and> endIndex c \<le> int (length txt))
        \<and> inj_on (\<lambda>c. (endIndex c, startIndex c)) (set cs)
        \<and> mset ds = mset cs
        \<and> sorted_wrt (\<lambda>a b. endIndex b < endIndex a
                    \<or> (endIndex b = endIndex a \<and> startIndex b \<le> startIndex a)) ds"
  proof -
    have "sorted (map citationKey ds)"
      using a by (simp only: sorted_map key_rel)
    moreover have "sorted (map citationKey (sort_key citationKey cs))" by simp
    moreover have "mset ds = mset (sort_key citationKey cs)" using a by simp
    moreover have "inj_on citationKey (set ds)"
      using a inj[of cs] by (metis set_mset_mset)
    ultimately have "ds = sort_key citationKey cs"
      by (rule sorted_unique_by_key)
    then show ?thesis using a by (simp add: offsets sortBy_sort_key)
  qed
  have p10: "spliceMarker txt c =
          take (nat (endIndex c)) txt @ markerToInsert (segments c)
            @ drop (nat (endIndex c)) txt"
    if "0 \<le> endIndex c \<and> endIndex c \<le> int (length txt)"
    using that by (simp add: spliceMarker_in_range)
  have p4: "insertCitationMarkers txt [c] =
          take (nat (endIndex c)) txt @ markerToInsert (segments c)
            @ drop (nat (endIndex c)) txt"
    if "0 \<le> endIndex c \<and> endIndex c \<le> int (length txt)"
    using that by (simp add: insertCitationMarkers_def sortBy_def spliceMarker_in_range)
  have p5: "insertCitationMarkers txt [c1, c2] =
          take (nat (endIndex c1)) txt @ markerToInsert (segments c1)
            @ take (nat (endIndex c2) - nat (endIndex c1)) (drop (nat (endIndex c1)) txt)
            @ markerToInsert (segments c2) @ drop (nat (endIndex c2)) txt
        \<and> insertCitationMarkers txt [c2, c1] = insertCitationMarkers txt [c1, c2]"
    if a: "0 \<le> endIndex c1 \<and> endIndex c1 < endIndex c2 \<and> endIndex c2 \<le> int (length txt)"
  proof -
    have s1: "sortBy compareCitations [c1, c2] = [c2, c1]"
      using a by (simp add: sortBy_def compareCitations_def)
    have s2: "sortBy compareCitations [c2, c1] = [c2, c1]"
      using a by (simp add: sortBy_def compareCitations_def)
    have r: "\<forall>c \<in> set [c1, c2]. 0 \<le> endIndex c \<and> endIndex c \<le> int (length txt)"
      using a by simp
    have "insertCitationMarkers txt [c1, c2] = insertAtOffsets txt 0 [c1, c2]"
      using offsets[OF r] s1 by simp
    moreover have "insertCitationMarkers txt [c2, c1] = insertCitationMarkers txt [c1, c2]"
      by (simp add: insertCitationMarkers_def s1 s2)
    ultimately show ?thesis by simp
  qed
  have p6: "markerToInsert [src] = '' ['' @ label src @ '']('' @ shortUrl src @ '')''"
    by simp
  have p7: "markerToInsert (srcs @ srcs') = markerToInsert srcs @ markerToInsert srcs'"
    by (induction srcs) simp_all
  have "sorted (map citationKey (sort_key citationKey cs))" by simp
  then have p8: "sorted_wrt (\<lambda>a b. endIndex b < endIndex a
                    \<or> (endIndex b = endIndex a \<and> startIndex b \<le> startIndex a))
        (sortBy compareCitations cs)"
    by (simp only: sorted_map key_rel sortBy_sort_key)
  have p9: "mset (sortBy compareCitations cs) = mset cs"
    by (simp add: sortBy_sort_key)
  from p1 p2 p3 p4 p5 p6 p7 p8 p9 p10 show ?thesis by blast
qed

theorem insertCitationMarkers_permutation_witness:
  "mset [\<lparr>startIndex = 0, endIndex = 2,
            segments = [\<lparr>label = ''B'', shortUrl = ''s2'', value = ''u2''\<rparr>]\<rparr>,
          \<lparr>startIndex = 0, endIndex = 1,
            segments = [\<lparr>label = ''A'', shortUrl = ''s1'', value = ''u1''\<rparr>]\<rparr>]
     = mset [\<lparr>startIndex = 0, endIndex = 1,
            segments = [\<lparr>label = ''A'', shortUrl = ''s1'', value = ''u1''\<rparr>]\<rparr>,
          \<lparr>startIndex = 0, endIndex = 2,
            segments = [\<lparr>label = ''B'', shortUrl = ''s2'', value = ''u2''\<rparr>]\<rparr>]
   \<and> insertCitationMarkers ''ab''
        [\<lparr>startIndex = 0, endIndex = 1,
            segments = [\<lparr>label = ''A'', shortUrl = ''s1'', value = ''u1''\<rparr>]\<rparr>,
          \<lparr>startIndex = 0, endIndex = 2,
            segments = [\<lparr>label = ''B'', shortUrl = ''s2'', value = ''u2''\<rparr>]\<rparr>]
     = ''a [A](s1)b [B](s2)''
   \<and> insertCitationMarkers ''ab''
        [\<lparr>startIndex = 0, endIndex = 2,
            segments = [\<lparr>label = ''B'', shortUrl = ''s2'', value = ''u2''\<rparr>]\<rparr>,
          \<lparr>startIndex = 0, endIndex = 1,
            segments = [\<lparr>label = ''A'', shortUrl = ''s1'', value = ''u1''\<rparr>]\<rparr>]
     = ''a [A](s1)b [B](s2)''
   \<and> insertCitationMarkers ''ab''
        [\<lparr>startIndex = 0, endIndex = 1,
            segments = [\<lparr>label = ''A'', shortUrl = ''s1'', value = ''u1''\<rparr>]\<rparr>]
     = ''a [A](s1)b''"
proof -
  have both: "insertCitationMarkers ''ab''
        [\<lparr>startIndex = 0, endIndex = 1,
            segments = [\<lparr>label = ''A'', shortUrl = ''s1'', value = ''u1''\<rparr>]\<rparr>,
          \<lparr>startIndex = 0, endIndex = 2,
            segments = [\<lparr>label = ''B'', shortUrl = ''s2'', value = ''u2''\<rparr>]\<rparr>]
     = ''a [A](s1)b [B](s2)''
   \<and> insertCitationMarkers ''ab''
        [\<lparr>startIndex = 0, endIndex = 2,
            segments = [\<lparr>label = ''B'', shortUrl = ''s2'', value = ''u2''\<rparr>]\<rparr>,
          \<lparr>startIndex = 0, endIndex = 1,
            segments = [\<lparr>label = ''A'', shortUrl = ''s1'', value = ''u1''\<rparr>]\<rparr>]
     = insertCitationMarkers ''ab''
        [\<lparr>startIndex = 0, endIndex = 1,
            segments = [\<lparr>label = ''A'', shortUrl = ''s1'', value = ''u1''\<rparr>]\<rparr>,
          \<lparr>startIndex = 0, endIndex = 2,
            segments = [\<lparr>label = ''B'', shortUrl = ''s2'', value = ''u2''\<rparr>]\<rparr>]
   \<and> insertCitationMarkers ''ab''
        [\<lparr>startIndex = 0, endIndex = 1,
            segments = [\<lparr>label = ''A'', shortUrl = ''s1'', value = ''u1''\<rparr>]\<rparr>]
     = ''a [A](s1)b''"
    using insertCitationMarkers_permutation[where ?txt = "''ab''"
      and cs = "[\<lparr>startIndex = 0, endIndex = 1,
            segments = [\<lparr>label = ''A'', shortUrl = ''s1'', value = ''u1''\<rparr>]\<rparr>,
          \<lparr>startIndex = 0, endIndex = 2,
            segments = [\<lparr>label = ''B'', shortUrl = ''s2'', value = ''u2''\<rparr>]\<rparr>]"
      and cs' = "[\<lparr>startIndex = 0, endIndex = 2,
            segments = [\<lparr>label = ''B'', shortUrl = ''s2'', value = ''u2''\<rparr>]\<rparr>,
          \<lparr>startIndex = 0, endIndex = 1,
            segments = [\<lparr>label = ''A'', shortUrl = ''s1'', value = ''u1''\<rparr>]\<rparr>]"
      and ds = "[\<lparr>startIndex = 0, endIndex = 2,
            segments = [\<lparr>label = ''B'', shortUrl = ''s2'', value = ''u2''\<rparr>]\<rparr>,
          \<lparr>startIndex = 0, endIndex = 1,
            segments = [\<lparr>label = ''A'', shortUrl = ''s1'', value = ''u1''\<rparr>]\<rparr>]"
      and c = "\<lparr>startIndex = 0, endIndex = 1,
            segments = [\<lparr>label = ''A'', shortUrl = ''s1'', value = ''u1''\<rparr>]\<rparr>"
      and ?c1.0 = "\<lparr>startIndex = 0, endIndex = 1,
            segments = [\<lparr>label = ''A'', shortUrl = ''s1'', value = ''u1''\<rparr>]\<rparr>"
      and ?c2.0 = "\<lparr>startIndex = 0, endIndex = 2,
            segments = [\<lparr>label = ''B'', shortUrl = ''s2'', value = ''u2''\<rparr>]\<rparr>"
      and src = "\<lparr>label = ''A'', shortUrl = ''s1'', value = ''u1''\<rparr>"
      and srcs = "[]" and srcs' = "[]"]
    by (simp add: add_mset_commute insertCitationMarkers_def sortBy_def compareCitations_def
        spliceMarker_def sliceTo_def sliceFrom_def relIndex_def)
  then show ?thesis by (simp add: add_mset_commute)
qed

text \<open>
  Claim C1, as stated, fails: two citations with the same offsets and different
  sources, given in the two possible orders, produce different texts.
\<close>

theorem insertCitationMarkers_order_counterexample:
  "mset [\<lparr>startIndex = 0, endIndex = 1,
            segments = [\<lparr>label = ''B'', shortUrl = ''s2'', value = ''u2''\<rparr>]\<rparr>,
          \<lparr>startIndex = 0, endIndex = 1,
            segments = [\<lparr>label = ''A'', shortUrl = ''s1'', value = ''u1''\<rparr>]\<rparr>]
     = mset [\<lparr>startIndex = 0, endIndex = 1,
            segments = [\<lparr>label = ''A'', shortUrl = ''s1'', value = ''u1''\<rparr>]\<rparr>,
          \<lparr>startIndex = 0, endIndex = 1,
            segments = [\<lparr>label = ''B'', shortUrl = ''s2'', value = ''u2''\<rparr>]\<rparr>]
   \<and> insertCitationMarkers ''ab''
        [\<lparr>startIndex = 0, endIndex = 1,
            segments = [\<lparr>label = ''A'', shortUrl = ''s1'', value = ''u1''\<rparr>]\<rparr>,
          \<lparr>startIndex = 0, endIndex = 1,
            segments = [\<lparr>label = ''B'', shortUrl = ''s2'', value = ''u2''\<rparr>]\<rparr>]
     = ''a [B](s2) [A](s1)b''
   \<and> insertCitationMarkers ''ab''
        [\<lparr>startIndex = 0, endIndex = 1,
            segments = [\<lparr>label = ''B'', shortUrl = ''s2'', value = ''u2''\<rparr>]\<rparr>,
          \<lparr>startIndex = 0, endIndex = 1,
            segments = [\<lparr>label = ''A'', shortUrl = ''s1'', value = ''u1''\<rparr>]\<rparr>]
     = ''a [A](s1) [B](s2)b''"
  by (simp add: insertCitationMarkers_def sortBy_def compareCitations_def spliceMarker_def
      sliceTo_def sliceFrom_def relIndex_def add_mset_commute)


text \<open>
  Claim C7, as the code has it. The marker is spliced at the end offset 12, which lies
  inside the word "blue": the call returns "The sky is b [NASA](s1)lue.".
\<close>

theorem insertCitationMarkers_sky_example:
  "insertCitationMarkers ''The sky is blue.''
     [\<lparr>startIndex = 4, endIndex = 12,
       segments = [\<lparr>label = ''NASA'', shortUrl = ''s1'', value = ''http://nasa.gov''\<rparr>]\<rparr>]
   = ''The sky is b [NASA](s1)lue.''"
  by (simp add: insertCitationMarkers_def sortBy_def spliceMarker_def sliceTo_def
      sliceFrom_def relIndex_def)

text \<open>
  Claim C7, as stated, fails: the result is not "The sky [NASA](s1) is blue.".
\<close>

theorem insertCitationMarkers_sky_counterexample:
  "insertCitationMarkers ''The sky is blue.''
     [\<lparr>startIndex = 4, endIndex = 12,
       segments = [\<lparr>label = ''NASA'', shortUrl = ''s1'', value = ''http://nasa.gov''\<rparr>]\<rparr>]
   \<noteq> ''The sky [NASA](s1) is blue.''"
  by (simp add: insertCitationMarkers_def sortBy_def spliceMarker_def sliceTo_def
      sliceFrom_def relIndex_def)

subsection \<open>getCitations\<close>
















subsection \<open>resolveUrls\<close>

text \<open>
  Claim C6. Within a batch \<open>resolveUrls\<close> is injective: two URLs with the same short
  URL are the same URL. A URL that has an entry is not empty, occurs in the chunk list,
  and its one short URL is formed from the index of its first occurrence, however
  often it is repeated. Every non-empty URL of the chunk list has an entry, except a
  URL that names a property inherited by every object, for which the lookup
  \<open>resolvedMap[url]\<close> is never falsy. The empty URL, which also stands for a chunk
  without \<open>web\<close> or \<open>uri\<close>, and URLs that no chunk carries have no entry.
\<close>

theorem resolveUrls_injective:
  "(resolveUrls chunks bid u = Some s \<and> resolveUrls chunks bid v = Some s \<longrightarrow> u = v)
   \<and> (resolveUrls chunks bid u = Some s \<longrightarrow>
        u \<noteq> [] \<and>
        (\<exists>i < length chunks. chunkUri (chunks ! i) = u
           \<and> (\<forall>j < i. chunkUri (chunks ! j) \<noteq> u)
           \<and> s = shortUrlFor bid i))
   \<and> (u \<noteq> [] \<and> u \<in> chunkUri ` set chunks \<and> u \<notin> set objectPrototypeKeys \<longrightarrow>
        (\<exists>i < length chunks. chunkUri (chunks ! i) = u
           \<and> (\<forall>j < i. chunkUri (chunks ! j) \<noteq> u)
           \<and> resolveUrls chunks bid u = Some (shortUrlFor bid i)))
   \<and> resolveUrls chunks bid [] = None
   \<and> (u \<in> set objectPrototypeKeys \<longrightarrow> resolveUrls chunks bid u = None)
   \<and> dom (resolveUrls chunks bid) =
       chunkUri ` set chunks - {[]} - set objectPrototypeKeys"
proof (intro conjI impI)
  assume a: "resolveUrls chunks bid u = Some s \<and> resolveUrls chunks bid v = Some s"
  let ?i = "\<lambda>w. length (takeWhile (\<lambda>c. chunkUri c \<noteq> w) chunks)"
  from a have au: "resolveUrls chunks bid u = Some s"
    and av: "resolveUrls chunks bid v = Some s"
    by (rule conjunct1, rule conjunct2)
  note u = resolveUrls_SomeD[OF au] and v = resolveUrls_SomeD[OF av]
  from u(2) v(2) have "shortUrlFor bid (?i u) = shortUrlFor bid (?i v)" by (rule subst)
  then have i: "?i u = ?i v" by (rule shortUrlFor_inj)
  have "u = chunkUri (chunks ! ?i u)"
    using first_occurrence(2)[OF u(1)] by (rule sym)
  also have "\<dots> = chunkUri (chunks ! ?i v)"
    using i by (rule arg_cong)
  also have "\<dots> = v"
    by (rule first_occurrence(2)[OF v(1)])
  finally show "u = v" .
next
  assume a: "resolveUrls chunks bid u = Some s"
  then show "u \<noteq> []" by (simp add: resolveUrls_lookup split: if_splits)
  let ?i = "length (takeWhile (\<lambda>c. chunkUri c \<noteq> u) chunks)"
  note d = resolveUrls_SomeD[OF a]
  note f = first_occurrence[OF d(1)]
  from f d(2) show "\<exists>i < length chunks. chunkUri (chunks ! i) = u
           \<and> (\<forall>j < i. chunkUri (chunks ! j) \<noteq> u)
           \<and> s = shortUrlFor bid i"
    by (intro exI[of _ ?i]) simp
next
  assume a: "u \<noteq> [] \<and> u \<in> chunkUri ` set chunks \<and> u \<notin> set objectPrototypeKeys"
  let ?i = "length (takeWhile (\<lambda>c. chunkUri c \<noteq> u) chunks)"
  from a have "u \<in> chunkUri ` set chunks" by simp
  note f = first_occurrence[OF this]
  have "resolveUrls chunks bid u = Some (shortUrlFor bid ?i)"
    using a by (simp add: resolveUrls_lookup)
  with f show "\<exists>i < length chunks. chunkUri (chunks ! i) = u
           \<and> (\<forall>j < i. chunkUri (chunks ! j) \<noteq> u)
           \<and> resolveUrls chunks bid u = Some (shortUrlFor bid i)"
    by (intro exI[of _ ?i]) simp
next
  show "resolveUrls chunks bid [] = None"
    by (simp add: resolveUrls_lookup)
next
  assume "u \<in> set objectPrototypeKeys"
  then show "resolveUrls chunks bid u = None"
    by (simp add: resolveUrls_lookup)
next
  show "dom (resolveUrls chunks bid) =
      chunkUri ` set chunks - {[]} - set objectPrototypeKeys"
    unfolding dom_def by (rule set_eqI) (simp add: resolveUrls_lookup)
qed

theorem resolveUrls_injective_witness:
  "resolveUrls
       [\<lparr>web = Some \<lparr>uri = Some ''http://a'', title = None\<rparr>\<rparr>,
        \<lparr>web = None\<rparr>,
        \<lparr>web = Some \<lparr>uri = Some ''constructor'', title = None\<rparr>\<rparr>,
        \<lparr>web = Some \<lparr>uri = Some ''http://b'', title = None\<rparr>\<rparr>,
        \<lparr>web = Some \<lparr>uri = Some ''http://a'', title = None\<rparr>\<rparr>] 7 ''http://b''
     = Some ''https://vertexaisearch.cloud.google.com/id/7-3''
   \<and> resolveUrls
       [\<lparr>web = Some \<lparr>uri = Some ''http://a'', title = None\<rparr>\<rparr>,
        \<lparr>web = None\<rparr>,
        \<lparr>web = Some \<lparr>uri = Some ''constructor'', title = None\<rparr>\<rparr>,
        \<lparr>web = Some \<lparr>uri = Some ''http://b'', title = None\<rparr>\<rparr>,
        \<lparr>web = Some \<lparr>uri = Some ''http://a'', title = None\<rparr>\<rparr>] 7 ''http://a''
     = Some ''https://vertexaisearch.cloud.google.com/id/7-0''
   \<and> resolveUrls
       [\<lparr>web = Some \<lparr>uri = Some ''http://a'', title = None\<rparr>\<rparr>,
        \<lparr>web = None\<rparr>,
        \<lparr>web = Some \<lparr>uri = Some ''constructor'', title = None\<rparr>\<rparr>,
        \<lparr>web = Some \<lparr>uri = Some ''http://b'', title = None\<rparr>\<rparr>,
        \<lparr>web = Some \<lparr>uri = Some ''http://a'', title = None\<rparr>\<rparr>] 7 ''constructor''
     = None
   \<and> dom (resolveUrls
       [\<lparr>web = Some \<lparr>uri = Some ''http://a'', title = None\<rparr>\<rparr>,
        \<lparr>web = None\<rparr>,
        \<lparr>web = Some \<lparr>uri = Some ''constructor'', title = None\<rparr>\<rparr>,
        \<lparr>web = Some \<lparr>uri = Some ''http://b'', title = None\<rparr>\<rparr>,
        \<lparr>web = Some \<lparr>uri = Some ''http://a'', title = None\<rparr>\<rparr>] 7)
     = {''http://a'', ''http://b''}"
proof -
  have b: "resolveUrls
       [\<lparr>web = Some \<lparr>uri = Some ''http://a'', title = None\<rparr>\<rparr>,
        \<lparr>web = None\<rparr>,
        \<lparr>web = Some \<lparr>uri = Some ''constructor'', title = None\<rparr>\<rparr>,
        \<lparr>web = Some \<lparr>uri = Some ''http://b'', title = None\<rparr>\<rparr>,
        \<lparr>web = Some \<lparr>uri = Some ''http://a'', title = None\<rparr>\<rparr>] 7 ''http://b''
     = Some ''https://vertexaisearch.cloud.google.com/id/7-3''"
    and d: "dom (resolveUrls
       [\<lparr>web = Some \<lparr>uri = Some ''http://a'', title = None\<rparr>\<rparr>,
        \<lparr>web = None\<rparr>,
        \<lparr>web = Some \<lparr>uri = Some ''constructor'', title = None\<rparr>\<rparr>,
        \<lparr>web = Some \<lparr>uri = Some ''http://b'', title = None\<rparr>\<rparr>,
        \<lparr>web = Some \<lparr>uri = Some ''http://a'', title = None\<rparr>\<rparr>] 7)
     = {''http://a'', ''http://b''}"
    using resolveUrls_injective[where chunks = "[\<lparr>web = Some \<lparr>uri = Some ''http://a'', title = None\<rparr>\<rparr>,
        \<lparr>web = None\<rparr>,
        \<lparr>web = Some \<lparr>uri = Some ''constructor'', title = None\<rparr>\<rparr>,
        \<lparr>web = Some \<lparr>uri = Some ''http://b'', title = None\<rparr>\<rparr>,
        \<lparr>web = Some \<lparr>uri = Some ''http://a'', title = None\<rparr>\<rparr>]"
        and bid = 7 and u = "''http://b''"
        and s = "''https://vertexaisearch.cloud.google.com/id/7-3''" and v = "''http://b''"]
    by (auto simp: resolveUrls_def chunkUri_def falsyLookup_def objectPrototypeKeys_def
        shortUrlFor_def urlPrefix_def showInt_def showNat_small digitChar_def)
  have a: "resolveUrls
       [\<lparr>web = Some \<lparr>uri = Some ''http://a'', title = None\<rparr>\<rparr>,
        \<lparr>web = None\<rparr>,
        \<lparr>web = Some \<lparr>uri = Some ''constructor'', title = None\<rparr>\<rparr>,
        \<lparr>web = Some \<lparr>uri = Some ''http://b'', title = None\<rparr>\<rparr>,
        \<lparr>web = Some \<lparr>uri = Some ''http://a'', title = None\<rparr>\<rparr>] 7 ''http://a''
     = Some ''https://vertexaisearch.cloud.google.com/id/7-0''"
    using resolveUrls_injective[where chunks = "[\<lparr>web = Some \<lparr>uri = Some ''http://a'', title = None\<rparr>\<rparr>,
        \<lparr>web = None\<rparr>,
        \<lparr>web = Some \<lparr>uri = Some ''constructor'', title = None\<rparr>\<rparr>,
        \<lparr>web = Some \<lparr>uri = Some ''http://b'', title = None\<rparr>\<rparr>,
        \<lparr>web = Some \<lparr>uri = Some ''http://a'', title = None\<rparr>\<rparr>]"
        and bid = 7 and u = "''http://a''"
        and s = "''https://vertexaisearch.cloud.google.com/id/7-0''" and v = "''http://a''"]
    by (auto simp: resolveUrls_def chunkUri_def falsyLookup_def objectPrototypeKeys_def
        shortUrlFor_def urlPrefix_def showInt_def showNat_small digitChar_def)
  have c: "resolveUrls
       [\<lparr>web = Some \<lparr>uri = Some ''http://a'', title = None\<rparr>\<rparr>,
        \<lparr>web = None\<rparr>,
        \<lparr>web = Some \<lparr>uri = Some ''constructor'', title = None\<rparr>\<rparr>,
        \<lparr>web = Some \<lparr>uri = Some ''http://b'', title = None\<rparr>\<rparr>,
        \<lparr>web = Some \<lparr>uri = Some ''http://a'', title = None\<rparr>\<rparr>] 7 ''constructor''
     = None"
    using resolveUrls_injective[where chunks = "[\<lparr>web = Some \<lparr>uri = Some ''http://a'', title = None\<rparr>\<rparr>,
        \<lparr>web = None\<rparr>,
        \<lparr>web = Some \<lparr>uri = Some ''constructor'', title = None\<rparr>\<rparr>,
        \<lparr>web = Some \<lparr>uri = Some ''http://b'', title = None\<rparr>\<rparr>,
        \<lparr>web = Some \<lparr>uri = Some ''http://a'', title = None\<rparr>\<rparr>]"
        and bid = 7 and u = "''constructor''"]
    by (simp add: objectPrototypeKeys_def)
  from b a c d show ?thesis by (intro conjI)
qed


subsection \<open>Short URLs in the final answer\<close>

text \<open>
  Claim C3 does not hold of the code. In a batch of eleven chunks with different URLs
  the short URL of the chunk at index 1 is a proper prefix of the short URL of the
  chunk at index 10. When the answer cites the latter, \<open>finalizeAnswer\<close> finds the
  former in it, replaces that part, leaves a stray 0 behind the wrong URL, and no
  longer finds the short URL that was cited: its source is lost.
\<close>

theorem short_url_prefix_overmatch:
  "resolveUrls
     (map (\<lambda>u. \<lparr>web = Some \<lparr>uri = Some u, title = None\<rparr>\<rparr>)
        [''http://zero.example'', ''http://one.example'', ''http://two.example'',
         ''http://three.example'', ''http://four.example'', ''http://five.example'',
         ''http://six.example'', ''http://seven.example'', ''http://eight.example'',
         ''http://nine.example'', ''http://ten.example'']) 0 ''http://one.example''
     = Some ''https://vertexaisearch.cloud.google.com/id/0-1''
   \<and> resolveUrls
     (map (\<lambda>u. \<lparr>web = Some \<lparr>uri = Some u, title = None\<rparr>\<rparr>)
        [''http://zero.example'', ''http://one.example'', ''http://two.example'',
         ''http://three.example'', ''http://four.example'', ''http://five.example'',
         ''http://six.example'', ''http://seven.example'', ''http://eight.example'',
         ''http://nine.example'', ''http://ten.example'']) 0 ''http://ten.example''
     = Some ''https://vertexaisearch.cloud.google.com/id/0-10''
   \<and> strict_prefix ''https://vertexaisearch.cloud.google.com/id/0-1''
        ''https://vertexaisearch.cloud.google.com/id/0-10''
   \<and> finalizeLoop ''see https://vertexaisearch.cloud.google.com/id/0-10 now'' [] {}
        [\<lparr>label = ''one'', shortUrl = ''https://vertexaisearch.cloud.google.com/id/0-1'',
          value = ''http://one.example''\<rparr>,
         \<lparr>label = ''ten'', shortUrl = ''https://vertexaisearch.cloud.google.com/id/0-10'',
          value = ''http://ten.example''\<rparr>]
     = (''see http://one.example0 now'',
        [\<lparr>label = ''one'', shortUrl = ''https://vertexaisearch.cloud.google.com/id/0-1'',
          value = ''http://one.example''\<rparr>])"
proof (intro conjI)
  show "resolveUrls
     (map (\<lambda>u. \<lparr>web = Some \<lparr>uri = Some u, title = None\<rparr>\<rparr>)
        [''http://zero.example'', ''http://one.example'', ''http://two.example'',
         ''http://three.example'', ''http://four.example'', ''http://five.example'',
         ''http://six.example'', ''http://seven.example'', ''http://eight.example'',
         ''http://nine.example'', ''http://ten.example'']) 0 ''http://one.example''
     = Some ''https://vertexaisearch.cloud.google.com/id/0-1''"
    by (simp add: resolveUrls_lookup chunkUri_def objectPrototypeKeys_def shortUrlFor_def
        urlPrefix_def showInt_def showNat_small digitChar_def)
next
  show "resolveUrls
     (map (\<lambda>u. \<lparr>web = Some \<lparr>uri = Some u, title = None\<rparr>\<rparr>)
        [''http://zero.example'', ''http://one.example'', ''http://two.example'',
         ''http://three.example'', ''http://four.example'', ''http://five.example'',
         ''http://six.example'', ''http://seven.example'', ''http://eight.example'',
         ''http://nine.example'', ''http://ten.example'']) 0 ''http://ten.example''
     = Some ''https://vertexaisearch.cloud.google.com/id/0-10''"
    by code_simp
next
  show "strict_prefix ''https://vertexaisearch.cloud.google.com/id/0-1''
        ''https://vertexaisearch.cloud.google.com/id/0-10''"
    by (simp add: strict_prefix_def)
next
  show "finalizeLoop ''see https://vertexaisearch.cloud.google.com/id/0-10 now'' [] {}
        [\<lparr>label = ''one'', shortUrl = ''https://vertexaisearch.cloud.google.com/id/0-1'',
          value = ''http://one.example''\<rparr>,
         \<lparr>label = ''ten'', shortUrl = ''https://vertexaisearch.cloud.google.com/id/0-10'',
          value = ''http://ten.example''\<rparr>]
     = (''see http://one.example0 now'',
        [\<lparr>label = ''one'', shortUrl = ''https://vertexaisearch.cloud.google.com/id/0-1'',
          value = ''http://one.example''\<rparr>])"
    by (simp add: replaceAllLiteral_def)
qed


text \<open>
  Claim C4, as the code has it. \<open>finalizeAnswer\<close> goes through the gathered sources
  in order. A source is cited when its short URL is not empty and occurs in the answer
  as the sources before it have rewritten it; the answer is then rewritten by replacing
  the short URL from left to right: the leftmost occurrence gives way to the original
  URL and the text behind it is treated the same way, while a text without the short
  URL stays as it is (for a URL without a dollar sign, which the replacement would
  read as a pattern). The returned message is the answer so rewritten, and the
  returned list has exactly one entry per original URL of the cited sources, the
  first cited source with that URL, in first-seen order. Sources that are not cited
  are left out: when no short URL occurs in the answer, the answer is unchanged and
  the list is empty.
\<close>

theorem finalizeAnswer_cited_sources:
  "(apiKey = Some k \<and> k \<noteq> [] \<longrightarrow>
      finalizeAnswer apiKey (Inr content) st =
        Inr (noUpdate\<lparr>messagesUpd :=
                 Elements [AIMessage (rewrittenAnswer content (sourcesGathered st))],
               sourcesGatheredUpd :=
                 Elements (firstPerUrl (citedSources content (sourcesGathered st)))\<rparr>))
   \<and> finalizeLoop content [] {} gathered =
       (rewrittenAnswer content gathered, firstPerUrl (citedSources content gathered))
   \<and> rewrittenAnswer content [] = content \<and> citedSources content [] = []
   \<and> (shortUrl sa \<noteq> [] \<and> includesText ca (shortUrl sa) \<longrightarrow>
        rewrittenAnswer ca (sa # ra) =
          rewrittenAnswer (replaceAllLiteral ca (shortUrl sa) (value sa)) ra
        \<and> citedSources ca (sa # ra) =
          sa # citedSources (replaceAllLiteral ca (shortUrl sa) (value sa)) ra)
   \<and> (shortUrl sb = [] \<or> \<not> includesText cb (shortUrl sb) \<longrightarrow>
        rewrittenAnswer cb (sb # rb) = rewrittenAnswer cb rb
        \<and> citedSources cb (sb # rb) = citedSources cb rb)
   \<and> includesText t p = (\<exists>u v. t = u @ p @ v)
   \<and> (p \<noteq> [] \<and> CHR ''$'' \<notin> set url \<and> \<not> includesText (u @ butlast p) p \<longrightarrow>
        replaceAllLiteral (u @ p @ v) p url = u @ url @ replaceAllLiteral v p url)
   \<and> (\<not> includesText w p \<longrightarrow> replaceAllLiteral w p url = w)
   \<and> firstPerUrl [] = []
   \<and> firstPerUrl (x # xs) = x # firstPerUrl (filter (\<lambda>y. value y \<noteq> value x) xs)
   \<and> distinct (map value (firstPerUrl xs))
   \<and> value ` set (firstPerUrl xs) = value ` set xs
   \<and> subseq (firstPerUrl xs) xs
   \<and> ((\<forall>s \<in> set gathered0. shortUrl s = [] \<or> \<not> includesText content0 (shortUrl s)) \<longrightarrow>
        finalizeLoop content0 [] {} gathered0 = (content0, []))
   \<and> (apiKey = Some k \<and> k \<noteq> [] \<and> shortUrl sc \<noteq> [] \<and> CHR ''$'' \<notin> set (value sc)
        \<and> \<not> includesText (uc @ butlast (shortUrl sc)) (shortUrl sc)
        \<and> \<not> includesText vc (shortUrl sc) \<longrightarrow>
        finalizeAnswer apiKey (Inr (uc @ shortUrl sc @ vc)) (st\<lparr>sourcesGathered := [sc]\<rparr>) =
          Inr (noUpdate\<lparr>messagesUpd := Elements [AIMessage (uc @ value sc @ vc)],
                 sourcesGatheredUpd := Elements [sc]\<rparr>))"
proof -
  have fa: "finalizeAnswer apiKey (Inr c) s =
        Inr (noUpdate\<lparr>messagesUpd :=
                 Elements [AIMessage (rewrittenAnswer c (sourcesGathered s))],
               sourcesGatheredUpd :=
                 Elements (firstPerUrl (citedSources c (sourcesGathered s)))\<rparr>)"
    if "apiKey = Some k \<and> k \<noteq> []" for c s
    using that by (simp add: finalizeAnswer_def finalizeLoop_result)
  have p1: "apiKey = Some k \<and> k \<noteq> [] \<longrightarrow>
      finalizeAnswer apiKey (Inr content) st =
        Inr (noUpdate\<lparr>messagesUpd :=
                 Elements [AIMessage (rewrittenAnswer content (sourcesGathered st))],
               sourcesGatheredUpd :=
                 Elements (firstPerUrl (citedSources content (sourcesGathered st)))\<rparr>)"
    using fa by blast
  have p2: "finalizeLoop content [] {} gathered =
       (rewrittenAnswer content gathered, firstPerUrl (citedSources content gathered))"
    by (rule finalizeLoop_result)
  have p3: "rewrittenAnswer content [] = content" and p3': "citedSources content [] = []"
    by simp_all
  have p4: "shortUrl sa \<noteq> [] \<and> includesText ca (shortUrl sa) \<longrightarrow>
        rewrittenAnswer ca (sa # ra) =
          rewrittenAnswer (replaceAllLiteral ca (shortUrl sa) (value sa)) ra
        \<and> citedSources ca (sa # ra) =
          sa # citedSources (replaceAllLiteral ca (shortUrl sa) (value sa)) ra"
    by simp
  have p5: "shortUrl sb = [] \<or> \<not> includesText cb (shortUrl sb) \<longrightarrow>
        rewrittenAnswer cb (sb # rb) = rewrittenAnswer cb rb
        \<and> citedSources cb (sb # rb) = citedSources cb rb"
    by auto
  have p6: "includesText t p = (\<exists>u v. t = u @ p @ v)"
    by (simp add: includesText_sublist sublist_def)
  have rl: "replaceAllLiteral (a @ q @ b) q r = a @ r @ replaceAllLiteral b q r"
    if h: "q \<noteq> [] \<and> CHR ''$'' \<notin> set r \<and> \<not> includesText (a @ butlast q) q" for a q b r
  proof -
    have "replaceFrom q r [] (a @ q @ b) = a @ r @ replaceFrom q r ([] @ a @ q) b"
      using h by (intro replaceFrom_leftmost) simp_all
    moreover have "replaceFrom q r ([] @ a @ q) b = replaceFrom q r [] b"
      using h by (simp add: replaceFrom_plain_pre)
    ultimately show ?thesis by (simp add: replaceAllLiteral_def)
  qed
  have ra: "replaceAllLiteral a q r = a" if "\<not> includesText a q" for a q r
    using that by (simp add: replaceAllLiteral_def replaceFrom_absent)
  have p7: "p \<noteq> [] \<and> CHR ''$'' \<notin> set url \<and> \<not> includesText (u @ butlast p) p \<longrightarrow>
        replaceAllLiteral (u @ p @ v) p url = u @ url @ replaceAllLiteral v p url"
    using rl by blast
  have p8: "\<not> includesText w p \<longrightarrow> replaceAllLiteral w p url = w"
    using ra by blast
  have p9: "firstPerUrl [] = []" by simp
  have p10: "firstPerUrl (x # xs) = x # firstPerUrl (filter (\<lambda>y. value y \<noteq> value x) xs)"
    by simp
  have p11: "distinct (map value (firstPerUrl xs))" by (rule firstPerUrl_distinct)
  have p12: "value ` set (firstPerUrl xs) = value ` set xs" by (rule firstPerUrl_values)
  have p13: "subseq (firstPerUrl xs) xs" by (rule firstPerUrl_subseq)
  have p14: "(\<forall>s \<in> set gathered0. shortUrl s = [] \<or> \<not> includesText content0 (shortUrl s)) \<longrightarrow>
        finalizeLoop content0 [] {} gathered0 = (content0, [])"
    using finalizeLoop_none_cited by blast
  have p15: "apiKey = Some k \<and> k \<noteq> [] \<and> shortUrl sc \<noteq> [] \<and> CHR ''$'' \<notin> set (value sc)
        \<and> \<not> includesText (uc @ butlast (shortUrl sc)) (shortUrl sc)
        \<and> \<not> includesText vc (shortUrl sc) \<longrightarrow>
        finalizeAnswer apiKey (Inr (uc @ shortUrl sc @ vc)) (st\<lparr>sourcesGathered := [sc]\<rparr>) =
          Inr (noUpdate\<lparr>messagesUpd := Elements [AIMessage (uc @ value sc @ vc)],
                 sourcesGatheredUpd := Elements [sc]\<rparr>)"
  proof
    assume h: "apiKey = Some k \<and> k \<noteq> [] \<and> shortUrl sc \<noteq> [] \<and> CHR ''$'' \<notin> set (value sc)
        \<and> \<not> includesText (uc @ butlast (shortUrl sc)) (shortUrl sc)
        \<and> \<not> includesText vc (shortUrl sc)"
    have inc: "includesText (uc @ shortUrl sc @ vc) (shortUrl sc)"
      by (simp add: includesText_sublist)
    have "replaceAllLiteral (uc @ shortUrl sc @ vc) (shortUrl sc) (value sc) =
        uc @ value sc @ replaceAllLiteral vc (shortUrl sc) (value sc)"
      using h by (intro rl) simp
    also have "\<dots> = uc @ value sc @ vc"
      using h by (simp add: ra)
    finally have rw: "rewrittenAnswer (uc @ shortUrl sc @ vc) [sc] = uc @ value sc @ vc"
      using h inc by simp
    have ci: "citedSources (uc @ shortUrl sc @ vc) [sc] = [sc]"
      using h inc by simp
    from h have key: "apiKey = Some k \<and> k \<noteq> []" by simp
    show "finalizeAnswer apiKey (Inr (uc @ shortUrl sc @ vc)) (st\<lparr>sourcesGathered := [sc]\<rparr>) =
          Inr (noUpdate\<lparr>messagesUpd := Elements [AIMessage (uc @ value sc @ vc)],
                 sourcesGatheredUpd := Elements [sc]\<rparr>)"
      unfolding fa[OF key]
      by (simp add: rw ci del: rewrittenAnswer.simps citedSources.simps)
  qed
  from p1 p2 p3 p3' p4 p5 p6 p7 p8 p9 p10 p11 p12 p13 p14 p15 show ?thesis
    by (intro conjI)
qed

theorem finalizeAnswer_cited_sources_witness:
  "finalizeAnswer (Some ''key'')
         (Inr ''x [a](id/0-0) y [a2](id/0-1) z [b](id/0-2)'')
         (graphStateDefault\<lparr>sourcesGathered :=
            [\<lparr>label = ''a'', shortUrl = ''id/0-0'', value = ''http://a''\<rparr>,
         \<lparr>label = ''a2'', shortUrl = ''id/0-1'', value = ''http://a''\<rparr>,
         \<lparr>label = ''b'', shortUrl = ''id/0-2'', value = ''http://b''\<rparr>]\<rparr>)
       = Inr (noUpdate\<lparr>messagesUpd :=
                  Elements [AIMessage ''x [a](http://a) y [a2](http://a) z [b](http://b)''],
                sourcesGatheredUpd := Elements
                  [\<lparr>label = ''a'', shortUrl = ''id/0-0'', value = ''http://a''\<rparr>,
                   \<lparr>label = ''b'', shortUrl = ''id/0-2'', value = ''http://b''\<rparr>]\<rparr>)
   \<and> finalizeLoop ''nothing cited'' [] {}
        [\<lparr>label = ''a'', shortUrl = ''id/0-0'', value = ''http://a''\<rparr>]
     = (''nothing cited'', [])
   \<and> finalizeAnswer (Some ''key'') (Inr ''x [a](id/0-0) y'')
         (graphStateDefault\<lparr>sourcesGathered := [\<lparr>label = ''a'', shortUrl = ''id/0-0'', value = ''http://a''\<rparr>]\<rparr>)
       = Inr (noUpdate\<lparr>messagesUpd := Elements [AIMessage ''x [a](http://a) y''],
                sourcesGatheredUpd := Elements [\<lparr>label = ''a'', shortUrl = ''id/0-0'', value = ''http://a''\<rparr>]\<rparr>)"
proof -
  have a: "finalizeAnswer (Some ''key'')
         (Inr ''x [a](id/0-0) y [a2](id/0-1) z [b](id/0-2)'')
         (graphStateDefault\<lparr>sourcesGathered :=
            [\<lparr>label = ''a'', shortUrl = ''id/0-0'', value = ''http://a''\<rparr>,
         \<lparr>label = ''a2'', shortUrl = ''id/0-1'', value = ''http://a''\<rparr>,
         \<lparr>label = ''b'', shortUrl = ''id/0-2'', value = ''http://b''\<rparr>]\<rparr>)
       = Inr (noUpdate\<lparr>messagesUpd :=
                  Elements [AIMessage ''x [a](http://a) y [a2](http://a) z [b](http://b)''],
                sourcesGatheredUpd := Elements
                  [\<lparr>label = ''a'', shortUrl = ''id/0-0'', value = ''http://a''\<rparr>,
                   \<lparr>label = ''b'', shortUrl = ''id/0-2'', value = ''http://b''\<rparr>]\<rparr>)"
    using finalizeAnswer_cited_sources[where apiKey = "Some ''key''"
        and k = "''key''"
        and content = "''x [a](id/0-0) y [a2](id/0-1) z [b](id/0-2)''"
        and st = "graphStateDefault\<lparr>sourcesGathered :=
            [\<lparr>label = ''a'', shortUrl = ''id/0-0'', value = ''http://a''\<rparr>,
         \<lparr>label = ''a2'', shortUrl = ''id/0-1'', value = ''http://a''\<rparr>,
         \<lparr>label = ''b'', shortUrl = ''id/0-2'', value = ''http://b''\<rparr>]\<rparr>"
        and gathered = "[\<lparr>label = ''a'', shortUrl = ''id/0-0'', value = ''http://a''\<rparr>,
         \<lparr>label = ''a2'', shortUrl = ''id/0-1'', value = ''http://a''\<rparr>,
         \<lparr>label = ''b'', shortUrl = ''id/0-2'', value = ''http://b''\<rparr>]"
        and sa = "\<lparr>label = ''a'', shortUrl = ''id/0-0'', value = ''http://a''\<rparr>"
        and ca = "''x [a](id/0-0) y [a2](id/0-1) z [b](id/0-2)''"
        and ra = "[\<lparr>label = ''a2'', shortUrl = ''id/0-1'', value = ''http://a''\<rparr>,
         \<lparr>label = ''b'', shortUrl = ''id/0-2'', value = ''http://b''\<rparr>]"
        and sb = "\<lparr>label = ''a'', shortUrl = ''id/0-0'', value = ''http://a''\<rparr>"
        and cb = "''nothing cited''"
        and rb = "[]"
        and t = "''x [a](id/0-0) y [a2](id/0-1) z [b](id/0-2)''"
        and p = "''id/0-0''"
        and url = "''http://a''"
        and u = "''x [a](''"
        and v = "'') y''"
        and w = "'') y''"
        and x = "\<lparr>label = ''a'', shortUrl = ''id/0-0'', value = ''http://a''\<rparr>"
        and xs = "[\<lparr>label = ''a'', shortUrl = ''id/0-0'', value = ''http://a''\<rparr>,
         \<lparr>label = ''a2'', shortUrl = ''id/0-1'', value = ''http://a''\<rparr>,
         \<lparr>label = ''b'', shortUrl = ''id/0-2'', value = ''http://b''\<rparr>]"
        and ?gathered0.0 = "[]"
        and ?content0.0 = "[]"
        and sc = "\<lparr>label = ''a'', shortUrl = ''id/0-0'', value = ''http://a''\<rparr>"
        and uc = "[]"
        and vc = "[]"]
    by (simp add: replaceAllLiteral_def graphStateDefault_def)
  have b: "finalizeLoop ''nothing cited'' [] {}
        [\<lparr>label = ''a'', shortUrl = ''id/0-0'', value = ''http://a''\<rparr>]
     = (''nothing cited'', [])"
    using finalizeAnswer_cited_sources[where apiKey = "Some ''key''"
        and k = "''key''"
        and content = "''nothing cited''"
        and st = "graphStateDefault"
        and gathered = "[]"
        and sa = "\<lparr>label = ''a'', shortUrl = ''id/0-0'', value = ''http://a''\<rparr>"
        and ca = "''id/0-0''"
        and ra = "[]"
        and sb = "\<lparr>label = ''a'', shortUrl = ''id/0-0'', value = ''http://a''\<rparr>"
        and cb = "''nothing cited''"
        and rb = "[]"
        and t = "''id/0-0''"
        and p = "''id/0-0''"
        and url = "''http://a''"
        and u = "[]"
        and v = "[]"
        and w = "[]"
        and x = "\<lparr>label = ''a'', shortUrl = ''id/0-0'', value = ''http://a''\<rparr>"
        and xs = "[]"
        and ?gathered0.0 = "[\<lparr>label = ''a'', shortUrl = ''id/0-0'', value = ''http://a''\<rparr>]"
        and ?content0.0 = "''nothing cited''"
        and sc = "\<lparr>label = ''a'', shortUrl = ''id/0-0'', value = ''http://a''\<rparr>"
        and uc = "[]"
        and vc = "[]"]
    by (simp add: replaceAllLiteral_def graphStateDefault_def)
  have c: "finalizeAnswer (Some ''key'') (Inr ''x [a](id/0-0) y'')
         (graphStateDefault\<lparr>sourcesGathered := [\<lparr>label = ''a'', shortUrl = ''id/0-0'', value = ''http://a''\<rparr>]\<rparr>)
       = Inr (noUpdate\<lparr>messagesUpd := Elements [AIMessage ''x [a](http://a) y''],
                sourcesGatheredUpd := Elements [\<lparr>label = ''a'', shortUrl = ''id/0-0'', value = ''http://a''\<rparr>]\<rparr>)"
    using finalizeAnswer_cited_sources[where apiKey = "Some ''key''"
        and k = "''key''"
        and content = "''nothing cited''"
        and st = "graphStateDefault"
        and gathered = "[]"
        and sa = "\<lparr>label = ''a'', shortUrl = ''id/0-0'', value = ''http://a''\<rparr>"
        and ca = "''id/0-0''"
        and ra = "[]"
        and sb = "\<lparr>label = ''a'', shortUrl = ''id/0-0'', value = ''http://a''\<rparr>"
        and cb = "''nothing cited''"
        and rb = "[]"
        and t = "''id/0-0''"
        and p = "''id/0-0''"
        and url = "''http://a''"
        and u = "[]"
        and v = "[]"
        and w = "[]"
        and x = "\<lparr>label = ''a'', shortUrl = ''id/0-0'', value = ''http://a''\<rparr>"
        and xs = "[]"
        and ?gathered0.0 = "[]"
        and ?content0.0 = "[]"
        and sc = "\<lparr>label = ''a'', shortUrl = ''id/0-0'', value = ''http://a''\<rparr>"
        and uc = "''x [a](''"
        and vc = "'') y''"]
    by (simp add: replaceAllLiteral_def graphStateDefault_def)
  from a b c show ?thesis by (intro conjI)
qed

text \<open>
  Claim C4, as stated, fails: the three gathered sources carry the URLs a, a and b,
  the answer cites none of them, and the returned list is empty instead of holding one
  entry for a and one for b.
\<close>

theorem finalizeAnswer_uncited_counterexample:
  "finalizeLoop ''plain answer'' [] {}
        [\<lparr>label = ''a'', shortUrl = ''id/0-0'', value = ''http://a''\<rparr>,
         \<lparr>label = ''a2'', shortUrl = ''id/0-1'', value = ''http://a''\<rparr>,
         \<lparr>label = ''b'', shortUrl = ''id/0-2'', value = ''http://b''\<rparr>]
     = (''plain answer'', [])
   \<and> finalizeAnswer (Some ''key'') (Inr ''plain answer'')
         (graphStateDefault\<lparr>sourcesGathered :=
            [\<lparr>label = ''a'', shortUrl = ''id/0-0'', value = ''http://a''\<rparr>,
             \<lparr>label = ''a2'', shortUrl = ''id/0-1'', value = ''http://a''\<rparr>,
             \<lparr>label = ''b'', shortUrl = ''id/0-2'', value = ''http://b''\<rparr>]\<rparr>)
       = Inr (noUpdate\<lparr>messagesUpd := Elements [AIMessage ''plain answer''],
                sourcesGatheredUpd := Elements []\<rparr>)"
  by (simp add: finalizeAnswer_def graphStateDefault_def)


subsection \<open>The loop controller\<close>

text \<open>
  Claim C2. \<open>evaluateResearch\<close> names \<open>finalizeAnswer\<close> exactly when \<open>isSufficient\<close>
  holds or \<open>researchLoopCount\<close> has reached \<open>maxResearchLoops\<close>: the bound \<open>m\<close> of the
  state, or that of the configuration when the state has none. With the bound \<open>m\<close>,
  the counter at 0 and every reflection answering "not sufficient", the counter after
  the reflections equals their number, and the state routes to \<open>finalizeAnswer\<close>
  exactly when that number has reached \<open>m\<close>: for the bound 2, not after one
  reflection and after two.
\<close>

theorem evaluateResearch_finalize_iff:
  "(maxResearchLoops st = Some m \<longrightarrow>
      (evaluateResearch cfg st = NodeName ''finalizeAnswer'') =
        (isSufficient st \<or> m \<le> researchLoopCount st))
   \<and> (maxResearchLoops st = None \<longrightarrow>
      (evaluateResearch cfg st = NodeName ''finalizeAnswer'') =
        (isSufficient st \<or> configMaxResearchLoops cfg \<le> researchLoopCount st))
   \<and> (apiKey = Some k \<and> k \<noteq> [] \<and> maxResearchLoops st0 = Some b \<and> researchLoopCount st0 = 0
        \<and> rs \<noteq> [] \<and> (\<forall>r \<in> set rs. \<not> respIsSufficient r)
      \<longrightarrow> (\<exists>st'. reflections apiKey rs st0 = Inr st'
             \<and> researchLoopCount st' = int (length rs)
             \<and> ((evaluateResearch cfg st' = NodeName ''finalizeAnswer'') =
                  (b \<le> int (length rs)))))"
proof (intro conjI impI)
  assume "maxResearchLoops st = Some m"
  then show "(evaluateResearch cfg st = NodeName ''finalizeAnswer'') =
     (isSufficient st \<or> m \<le> researchLoopCount st)"
    by (simp add: evaluateResearch_def Let_def)
next
  assume "maxResearchLoops st = None"
  then show "(evaluateResearch cfg st = NodeName ''finalizeAnswer'') =
     (isSufficient st \<or> configMaxResearchLoops cfg \<le> researchLoopCount st)"
    by (simp add: evaluateResearch_def Let_def)
next
  assume a: "apiKey = Some k \<and> k \<noteq> [] \<and> maxResearchLoops st0 = Some b
    \<and> researchLoopCount st0 = 0 \<and> rs \<noteq> [] \<and> (\<forall>r \<in> set rs. \<not> respIsSufficient r)"
  then have "\<exists>st'. reflections apiKey rs st0 = Inr st'
     \<and> researchLoopCount st' = researchLoopCount st0 + int (length rs)
     \<and> \<not> isSufficient st' \<and> maxResearchLoops st' = maxResearchLoops st0"
    by (intro reflections_count[of apiKey k]) simp_all
  then obtain st' where s: "reflections apiKey rs st0 = Inr st'"
    "researchLoopCount st' = researchLoopCount st0 + int (length rs)"
    "\<not> isSufficient st'" "maxResearchLoops st' = maxResearchLoops st0"
    by blast
  have "(evaluateResearch cfg st' = NodeName ''finalizeAnswer'') = (b \<le> int (length rs))"
    using s a by (simp add: evaluateResearch_def Let_def)
  with s a show "\<exists>st'. reflections apiKey rs st0 = Inr st'
      \<and> researchLoopCount st' = int (length rs)
      \<and> ((evaluateResearch cfg st' = NodeName ''finalizeAnswer'') = (b \<le> int (length rs)))"
    by simp
qed

theorem evaluateResearch_finalize_iff_witness:
  "evaluateResearch \<lparr>configMaxResearchLoops = 2\<rparr>
       (graphStateDefault\<lparr>maxResearchLoops := Some 5, researchLoopCount := 2\<rparr>)
     \<noteq> NodeName ''finalizeAnswer''
   \<and> evaluateResearch \<lparr>configMaxResearchLoops = 2\<rparr>
       (graphStateDefault\<lparr>maxResearchLoops := None, researchLoopCount := 2\<rparr>)
     = NodeName ''finalizeAnswer''
   \<and> (\<exists>st'. reflections (Some ''key'')
            [\<lparr>respIsSufficient = False, respKnowledgeGap = ''gap'',
              respFollowUpQueries = Some [''more'']\<rparr>] graphStateDefault = Inr st'
      \<and> researchLoopCount st' = 1
      \<and> evaluateResearch \<lparr>configMaxResearchLoops = 2\<rparr> st' \<noteq> NodeName ''finalizeAnswer'')
   \<and> (\<exists>st'. reflections (Some ''key'')
            [\<lparr>respIsSufficient = False, respKnowledgeGap = ''gap'',
              respFollowUpQueries = Some [''more'']\<rparr>,
             \<lparr>respIsSufficient = False, respKnowledgeGap = ''gap'',
              respFollowUpQueries = None\<rparr>] graphStateDefault = Inr st'
      \<and> researchLoopCount st' = 2
      \<and> evaluateResearch \<lparr>configMaxResearchLoops = 2\<rparr> st' = NodeName ''finalizeAnswer'')"
proof -
  have a: "evaluateResearch \<lparr>configMaxResearchLoops = 2\<rparr>
       (graphStateDefault\<lparr>maxResearchLoops := Some 5, researchLoopCount := 2\<rparr>)
     \<noteq> NodeName ''finalizeAnswer''"
    using evaluateResearch_finalize_iff[where
        st = "graphStateDefault\<lparr>maxResearchLoops := Some 5, researchLoopCount := 2\<rparr>"
        and m = 5 and cfg = "\<lparr>configMaxResearchLoops = 2\<rparr>"]
    by (simp add: graphStateDefault_def)
  have b: "evaluateResearch \<lparr>configMaxResearchLoops = 2\<rparr>
       (graphStateDefault\<lparr>maxResearchLoops := None, researchLoopCount := 2\<rparr>)
     = NodeName ''finalizeAnswer''"
    using evaluateResearch_finalize_iff[where
        st = "graphStateDefault\<lparr>maxResearchLoops := None, researchLoopCount := 2\<rparr>"
        and cfg = "\<lparr>configMaxResearchLoops = 2\<rparr>"]
    by (simp add: graphStateDefault_def)
  have c: "\<exists>st'. reflections (Some ''key'')
            [\<lparr>respIsSufficient = False, respKnowledgeGap = ''gap'',
              respFollowUpQueries = Some [''more'']\<rparr>] graphStateDefault = Inr st'
      \<and> researchLoopCount st' = 1
      \<and> evaluateResearch \<lparr>configMaxResearchLoops = 2\<rparr> st' \<noteq> NodeName ''finalizeAnswer''"
    using evaluateResearch_finalize_iff[where cfg = "\<lparr>configMaxResearchLoops = 2\<rparr>"
        and apiKey = "Some ''key''" and k = "''key''" and ?st0.0 = graphStateDefault and b = 2
        and rs = "[\<lparr>respIsSufficient = False, respKnowledgeGap = ''gap'',
              respFollowUpQueries = Some [''more'']\<rparr>]"]
    by (simp add: graphStateDefault_def)
  have d: "\<exists>st'. reflections (Some ''key'')
            [\<lparr>respIsSufficient = False, respKnowledgeGap = ''gap'',
              respFollowUpQueries = Some [''more'']\<rparr>,
             \<lparr>respIsSufficient = False, respKnowledgeGap = ''gap'',
              respFollowUpQueries = None\<rparr>] graphStateDefault = Inr st'
      \<and> researchLoopCount st' = 2
      \<and> evaluateResearch \<lparr>configMaxResearchLoops = 2\<rparr> st' = NodeName ''finalizeAnswer''"
    using evaluateResearch_finalize_iff[where cfg = "\<lparr>configMaxResearchLoops = 2\<rparr>"
        and apiKey = "Some ''key''" and k = "''key''" and ?st0.0 = graphStateDefault and b = 2
        and rs = "[\<lparr>respIsSufficient = False, respKnowledgeGap = ''gap'',
              respFollowUpQueries = Some [''more'']\<rparr>,
             \<lparr>respIsSufficient = False, respKnowledgeGap = ''gap'',
              respFollowUpQueries = None\<rparr>]"]
    by (simp add: graphStateDefault_def)
  from a b c d show ?thesis by (intro conjI)
qed


text \<open>
  Claim C8. When \<open>evaluateResearch\<close> does not name \<open>finalizeAnswer\<close>, it returns one
  object per entry of \<open>followUpQueries\<close>, in order, each for the node \<open>webResearch\<close>,
  the i-th with id \<open>numberOfRanQueries + i\<close>. The objects that
  \<open>continueToWebResearch\<close> returns first have the ids 0 to N - 1. Take any sequence
  of loop turns, each a state and the objects \<open>evaluateResearch\<close> returns for it, in
  which \<open>numberOfRanQueries\<close> equals the number of objects returned before that turn:
  then the ids of all objects, in order, are 0, 1, 2, ... and no id is minted twice.
\<close>

theorem evaluateResearch_follow_up_ids:
  "(evaluateResearch cfg st \<noteq> NodeName ''finalizeAnswer'' \<longrightarrow>
      (\<exists>sends. evaluateResearch cfg st = SendObjects sends
         \<and> length sends = length (followUpQueries st)
         \<and> (\<forall>i < length sends.
               node (sends ! i) = ''webResearch''
             \<and> argSearchQuery (args (sends ! i)) = followUpQueries st ! i
             \<and> argId (args (sends ! i)) = numberOfRanQueries st + int i)))
   \<and> map (\<lambda>s. argId (args s)) (continueToWebResearch st0) =
        map int [0 ..< length (queryList st0)]
   \<and> ((\<forall>t \<in> set turns. evaluateResearch cfg (fst t) = SendObjects (snd t))
        \<and> (\<forall>k < length turns. numberOfRanQueries (fst (turns ! k)) =
              int (length (continueToWebResearch st0)
                   + length (concat (map snd (take k turns)))))
      \<longrightarrow> map (\<lambda>s. argId (args s)) (continueToWebResearch st0 @ concat (map snd turns)) =
            map int [0 ..< length (continueToWebResearch st0 @ concat (map snd turns))]
          \<and> distinct (map (\<lambda>s. argId (args s))
               (continueToWebResearch st0 @ concat (map snd turns))))"
proof (intro conjI impI)
  assume "evaluateResearch cfg st \<noteq> NodeName ''finalizeAnswer''"
  then show "\<exists>sends. evaluateResearch cfg st = SendObjects sends
         \<and> length sends = length (followUpQueries st)
         \<and> (\<forall>i < length sends.
               node (sends ! i) = ''webResearch''
             \<and> argSearchQuery (args (sends ! i)) = followUpQueries st ! i
             \<and> argId (args (sends ! i)) = numberOfRanQueries st + int i)"
    by (simp add: evaluateResearch_def Let_def withIndex_def split: if_splits)
next
  show "map (\<lambda>s. argId (args s)) (continueToWebResearch st0) =
        map int [0 ..< length (queryList st0)]"
    using continueToWebResearch_ids[of st0]
    by (simp add: continueToWebResearch_def withIndex_def)
next
  assume a: "(\<forall>t \<in> set turns. evaluateResearch cfg (fst t) = SendObjects (snd t))
        \<and> (\<forall>k < length turns. numberOfRanQueries (fst (turns ! k)) =
              int (length (continueToWebResearch st0)
                   + length (concat (map snd (take k turns)))))"
  let ?all = "continueToWebResearch st0 @ concat (map snd turns)"
  have ids: "map (\<lambda>s. argId (args s)) ?all = map int [0 ..< length ?all]"
    using a continueToWebResearch_ids[of st0]
    by (intro turns_ids[of turns cfg]) blast+
  then show "map (\<lambda>s. argId (args s)) ?all = map int [0 ..< length ?all]" .
  have "distinct (map int [0 ..< length ?all])"
    by (simp add: distinct_map)
  with ids show "distinct (map (\<lambda>s. argId (args s)) ?all)"
    by (simp only:)
qed

theorem evaluateResearch_follow_up_ids_witness:
  "evaluateResearch \<lparr>configMaxResearchLoops = 2\<rparr>
       (graphStateDefault\<lparr>researchLoopCount := 1, numberOfRanQueries := 2,
          followUpQueries := [''a'', ''b'']\<rparr>) \<noteq> NodeName ''finalizeAnswer''
   \<and> evaluateResearch \<lparr>configMaxResearchLoops = 2\<rparr>
       (graphStateDefault\<lparr>researchLoopCount := 1, numberOfRanQueries := 2,
          followUpQueries := [''a'', ''b'']\<rparr>)
     = SendObjects [\<lparr>node = ''webResearch'', args = \<lparr>argSearchQuery = ''a'', argId = 2\<rparr>\<rparr>,
              \<lparr>node = ''webResearch'', args = \<lparr>argSearchQuery = ''b'', argId = 3\<rparr>\<rparr>]
   \<and> map (\<lambda>s. argId (args s))
        (continueToWebResearch (graphStateDefault\<lparr>queryList :=
           [\<lparr>query = ''q0'', rationale = []\<rparr>, \<lparr>query = ''q1'', rationale = []\<rparr>]\<rparr>)
         @ [\<lparr>node = ''webResearch'', args = \<lparr>argSearchQuery = ''a'', argId = 2\<rparr>\<rparr>,
            \<lparr>node = ''webResearch'', args = \<lparr>argSearchQuery = ''b'', argId = 3\<rparr>\<rparr>])
     = [0, 1, 2, 3]
   \<and> distinct (map (\<lambda>s. argId (args s))
        (continueToWebResearch (graphStateDefault\<lparr>queryList :=
           [\<lparr>query = ''q0'', rationale = []\<rparr>, \<lparr>query = ''q1'', rationale = []\<rparr>]\<rparr>)
         @ [\<lparr>node = ''webResearch'', args = \<lparr>argSearchQuery = ''a'', argId = 2\<rparr>\<rparr>,
            \<lparr>node = ''webResearch'', args = \<lparr>argSearchQuery = ''b'', argId = 3\<rparr>\<rparr>]))"
  using evaluateResearch_follow_up_ids[where cfg = "\<lparr>configMaxResearchLoops = 2\<rparr>"
      and st = "graphStateDefault\<lparr>researchLoopCount := 1, numberOfRanQueries := 2,
          followUpQueries := [''a'', ''b'']\<rparr>"
      and ?st0.0 = "graphStateDefault\<lparr>queryList :=
           [\<lparr>query = ''q0'', rationale = []\<rparr>, \<lparr>query = ''q1'', rationale = []\<rparr>]\<rparr>"
      and turns = "[(graphStateDefault\<lparr>researchLoopCount := 1, numberOfRanQueries := 2,
          followUpQueries := [''a'', ''b'']\<rparr>,
          [\<lparr>node = ''webResearch'', args = \<lparr>argSearchQuery = ''a'', argId = 2\<rparr>\<rparr>,
           \<lparr>node = ''webResearch'', args = \<lparr>argSearchQuery = ''b'', argId = 3\<rparr>\<rparr>])]"]
  by (simp add: graphStateDefault_def evaluateResearch_def continueToWebResearch_def
      withIndex_def)


subsection \<open>Web research\<close>




text \<open>
  Claim C10. Whether the search succeeds or fails, the update of \<open>webResearch\<close> gives
  \<open>searchQuery\<close> the one-element array of the dispatched query and \<open>webResearchResult\<close>
  a one-element array. Through \<open>arrayAccumulator\<close> a branch therefore adds exactly one
  entry to \<open>searchQuery\<close>, and several branches, whatever their outcomes, add one
  entry each. \<open>reflection\<close> sets \<open>numberOfRanQueries\<close> to the length of
  \<open>searchQuery\<close>: on a state whose \<open>searchQuery\<close> has accumulated the contributions of
  the branches, that is the earlier length plus the number of branches.
\<close>

theorem webResearch_adds_one_query:
  "searchQueryUpd (webResearch a outcome) = Elements [argSearchQuery a]
   \<and> (\<exists>r. webResearchResultUpd (webResearch a outcome) = Elements [r])
   \<and> arrayAccumulator falsyString current (searchQueryUpd (webResearch a outcome)) =
       current @ [argSearchQuery a]
   \<and> searchQuery (applyUpdate st (webResearch a outcome)) = searchQuery st @ [argSearchQuery a]
   \<and> length (webResearchResult (applyUpdate st (webResearch a outcome))) =
       length (webResearchResult st) + 1
   \<and> foldl (arrayAccumulator falsyString) current
        (map (\<lambda>b. searchQueryUpd (webResearch (fst b) (snd b))) branches) =
       current @ map (\<lambda>b. argSearchQuery (fst b)) branches
   \<and> (reflection apiKey rOutcome st' = Inr u \<longrightarrow>
        numberOfRanQueriesUpd u = Some (int (length (searchQuery st'))))
   \<and> (searchQuery st' =
          foldl (arrayAccumulator falsyString) (searchQuery st)
            (map (\<lambda>b. searchQueryUpd (webResearch (fst b) (snd b))) branches)
        \<and> reflection apiKey rOutcome st' = Inr u \<longrightarrow>
        numberOfRanQueriesUpd u = Some (int (length (searchQuery st) + length branches))
        \<and> numberOfRanQueries (applyUpdate st' u) =
            int (length (searchQuery st) + length branches))"
proof -
  have 1: "searchQueryUpd (webResearch a outcome) = Elements [argSearchQuery a]"
    by (rule webResearch_searchQueryUpd)
  have 2: "\<exists>r. webResearchResultUpd (webResearch a outcome) = Elements [r]"
    by (cases outcome) (simp_all add: webResearch_def noUpdate_def Let_def)
  have 3: "arrayAccumulator falsyString current (searchQueryUpd (webResearch a outcome)) =
       current @ [argSearchQuery a]"
    by (simp add: 1 arrayAccumulator_def)
  have 4: "searchQuery (applyUpdate st (webResearch a outcome)) =
      searchQuery st @ [argSearchQuery a]"
    by (rule webResearch_searchQuery)
  have 5: "length (webResearchResult (applyUpdate st (webResearch a outcome))) =
       length (webResearchResult st) + 1"
    using 2 by (auto simp: applyUpdate_def arrayAccumulator_def)
  have 6: "foldl (arrayAccumulator falsyString) current
        (map (\<lambda>b. searchQueryUpd (webResearch (fst b) (snd b))) branches) =
       current @ map (\<lambda>b. argSearchQuery (fst b)) branches" for current
    by (rule accumulate_branches)
  have 7: "numberOfRanQueriesUpd u = Some (int (length (searchQuery st')))"
    if "reflection apiKey rOutcome st' = Inr u"
    using that by (auto simp: reflection_def noUpdate_def split: if_splits sum.splits)
  have 8: "numberOfRanQueriesUpd u = Some (int (length (searchQuery st) + length branches))
        \<and> numberOfRanQueries (applyUpdate st' u) =
            int (length (searchQuery st) + length branches)"
    if h: "searchQuery st' =
          foldl (arrayAccumulator falsyString) (searchQuery st)
            (map (\<lambda>b. searchQueryUpd (webResearch (fst b) (snd b))) branches)
        \<and> reflection apiKey rOutcome st' = Inr u"
  proof -
    from h have l: "length (searchQuery st') = length (searchQuery st) + length branches"
      by (simp add: 6)
    from h have r: "reflection apiKey rOutcome st' = Inr u" by simp
    show ?thesis
      using 7[OF r] reflection_numberOfRanQueries(1)[OF r] l by simp
  qed
  from 1 2 3 4 5 6 7 8 show ?thesis by blast
qed

theorem webResearch_adds_one_query_witness:
  "reflection (Some ''key'')
      (Inr \<lparr>respIsSufficient = False, respKnowledgeGap = [], respFollowUpQueries = None\<rparr>)
      (graphStateDefault\<lparr>searchQuery := [''q0'', ''q1'']\<rparr>) =
     Inr (noUpdate\<lparr>isSufficientUpd := Some False, knowledgeGapUpd := Some [],
            followUpQueriesUpd := Elements [], researchLoopCountUpd := Some 1,
            numberOfRanQueriesUpd := Some 2\<rparr>)
   \<and> searchQuery (graphStateDefault\<lparr>searchQuery := [''q0'', ''q1'']\<rparr>) =
       foldl (arrayAccumulator falsyString) (searchQuery graphStateDefault)
         (map (\<lambda>b. searchQueryUpd (webResearch (fst b) (snd b)))
            [(\<lparr>argSearchQuery = ''q0'', argId = 0\<rparr>, Inl Thrown),
             (\<lparr>argSearchQuery = ''q1'', argId = 1\<rparr>, Inl (Error ''down''))])
   \<and> numberOfRanQueries (applyUpdate (graphStateDefault\<lparr>searchQuery := [''q0'', ''q1'']\<rparr>)
       (noUpdate\<lparr>isSufficientUpd := Some False, knowledgeGapUpd := Some [],
            followUpQueriesUpd := Elements [], researchLoopCountUpd := Some 1,
            numberOfRanQueriesUpd := Some 2\<rparr>)) = 2"
  using webResearch_adds_one_query[where a = "\<lparr>argSearchQuery = ''q0'', argId = 0\<rparr>"
      and outcome = "Inl Thrown" and current = "[]" and st = graphStateDefault
      and branches = "[(\<lparr>argSearchQuery = ''q0'', argId = 0\<rparr>, Inl Thrown),
             (\<lparr>argSearchQuery = ''q1'', argId = 1\<rparr>, Inl (Error ''down''))]"
      and apiKey = "Some ''key''"
      and rOutcome = "Inr \<lparr>respIsSufficient = False, respKnowledgeGap = [],
            respFollowUpQueries = None\<rparr>"
      and st' = "graphStateDefault\<lparr>searchQuery := [''q0'', ''q1'']\<rparr>"
      and u = "noUpdate\<lparr>isSufficientUpd := Some False, knowledgeGapUpd := Some [],
            followUpQueriesUpd := Elements [], researchLoopCountUpd := Some 1,
            numberOfRanQueriesUpd := Some 2\<rparr>"]
  by (simp add: graphStateDefault_def reflection_def webResearch_def arrayAccumulator_def
      noUpdate_def)


end
